theory Spec2Isabelle
  imports Main "HOL-Library.List_Lexorder" "HOL-Library.Sublist" "HOL-Library.Multiset"
begin

section \<open>Text\<close>

text \<open>
  A Python \<^verbatim>\<open>str\<close> is a sequence of Unicode code points. The regular expressions of
  \<^verbatim>\<open>generate_gallery.py\<close>, \<^verbatim>\<open>str.strip\<close>, \<^verbatim>\<open>str.lower\<close> and the ordering of file names
  all work on code points, so a string is modelled as a list of code points (natural
  numbers) and not as a list of bytes. \<open>u\<close> turns an ASCII literal into such a string.
\<close>

type_synonym codepoint = nat
type_synonym ustring = "codepoint list"

definition u :: "string \<Rightarrow> ustring" where
  "u s = map of_char s"

abbreviation NL :: codepoint where "NL \<equiv> 10"
abbreviation HASH :: codepoint where "HASH \<equiv> 35"

text \<open>
  The white space of Python 3: the code points for which \<^verbatim>\<open>str.isspace\<close> holds. The
  class \<^verbatim>\<open>\s\<close> of \<^verbatim>\<open>re\<close> (on \<^verbatim>\<open>str\<close> patterns) and \<^verbatim>\<open>str.strip()\<close> use the same set.
\<close>

definition isspace :: "codepoint \<Rightarrow> bool" where
  "isspace c \<longleftrightarrow>
     (9 \<le> c \<and> c \<le> 13) \<or> (28 \<le> c \<and> c \<le> 32) \<or> c = 133 \<or> c = 160 \<or> c = 5760 \<or>
     (8192 \<le> c \<and> c \<le> 8202) \<or> c = 8232 \<or> c = 8233 \<or> c = 8239 \<or> c = 8287 \<or> c = 12288"

text \<open>\<^verbatim>\<open>s.strip()\<close>: leading and trailing white space removed.\<close>

definition py_strip :: "ustring \<Rightarrow> ustring" where
  "py_strip s = rev (dropWhile isspace (rev (dropWhile isspace s)))"

text \<open>
  \<^verbatim>\<open>s.lower()\<close>. Every ASCII capital goes to its small letter. Outside ASCII exactly two
  code points have a lower-case form that holds an ASCII letter: U+0130 (to \<^verbatim>\<open>i\<close> and
  U+0307) and U+212A, the Kelvin sign (to \<^verbatim>\<open>k\<close>). All other code points outside ASCII go
  to code points outside ASCII; \<open>py_lower\<close> leaves them as they are, which changes no
  test for an ASCII text in the result. It is used for such tests only
  (\<open>detect_language\<close>); where the lower-case text itself is the result, \<^verbatim>\<open>str.lower\<close> is a
  parameter (\<open>generate_page\<close>).
\<close>

definition lower_cp :: "codepoint \<Rightarrow> ustring" where
  "lower_cp c =
     (if 65 \<le> c \<and> c \<le> 90 then [c + 32]
      else if c = 304 then [105, 775]
      else if c = 8490 then [107]
      else [c])"

definition py_lower :: "ustring \<Rightarrow> ustring" where
  "py_lower s = concat (map lower_cp s)"

text \<open>\<^verbatim>\<open>pat in s\<close> on strings: \<open>pat\<close> occurs in \<open>s\<close> as a contiguous piece.\<close>

fun py_in :: "ustring \<Rightarrow> ustring \<Rightarrow> bool" where
  "py_in pat [] = (pat = [])"
| "py_in pat (c # cs) = (prefix pat (c # cs) \<or> py_in pat cs)"

text \<open>\<^verbatim>\<open>s.replace(' ', '-')\<close>.\<close>

definition replace_space :: "ustring \<Rightarrow> ustring" where
  "replace_space s = map (\<lambda>c. if c = 32 then 45 else c) s"

text \<open>\<^verbatim>\<open>str(n)\<close> for a natural number: its decimal digits.\<close>

function str_nat :: "nat \<Rightarrow> ustring" where
  "str_nat n = (if n < 10 then [48 + n] else str_nat (n div 10) @ [48 + n mod 10])"
  by pat_completeness auto
termination
  by (relation "measure id") auto

declare str_nat.simps [simp del]

section \<open>Regular expressions\<close>

text \<open>
  The two patterns of the extractor use literals, an alternation, the classes \<^verbatim>\<open>\s\<close> and
  \<^verbatim>\<open>.\<close>, the greedy \<^verbatim>\<open>*\<close>, the lazy \<^verbatim>\<open>*?\<close> and \<^verbatim>\<open>+?\<close>, and one capturing group. \<^verbatim>\<open>re\<close> is
  a backtracking matcher: \<open>rmatch\<close> lists every way a pattern matches at the front of
  the input, in the order in which the matcher tries them (an alternation left to
  right, a greedy repetition longest first, a lazy one shortest first, a sequence by
  backtracking into its left part last). The match that \<^verbatim>\<open>re\<close> reports is the first of
  the list. A state is the input that is left and the text of group 1.
\<close>

datatype cclass = Space | AnyButNL | AnyChar

fun in_class :: "cclass \<Rightarrow> codepoint \<Rightarrow> bool" where
  "in_class Space c = isspace c"
| "in_class AnyButNL c = (c \<noteq> NL)"
| "in_class AnyChar c = True"

datatype regex =
    Lit ustring
  | Alt regex regex
  | Cat regex regex
  | Star cclass
  | StarLazy cclass
  | PlusLazy cclass
  | Group regex

fun star_greedy :: "cclass \<Rightarrow> ustring \<Rightarrow> ustring list" where
  "star_greedy k [] = [[]]"
| "star_greedy k (c # cs) = (if in_class k c then star_greedy k cs @ [c # cs] else [c # cs])"

fun star_lazy :: "cclass \<Rightarrow> ustring \<Rightarrow> ustring list" where
  "star_lazy k [] = [[]]"
| "star_lazy k (c # cs) = (c # cs) # (if in_class k c then star_lazy k cs else [])"

type_synonym mstate = "ustring \<times> ustring option"

fun rmatch :: "regex \<Rightarrow> mstate \<Rightarrow> mstate list" where
  "rmatch (Lit w) (s, g) = (if prefix w s then [(drop (length w) s, g)] else [])"
| "rmatch (Alt a b) st = rmatch a st @ rmatch b st"
| "rmatch (Cat a b) st = concat (map (rmatch b) (rmatch a st))"
| "rmatch (Star k) (s, g) = map (\<lambda>r. (r, g)) (star_greedy k s)"
| "rmatch (StarLazy k) (s, g) = map (\<lambda>r. (r, g)) (star_lazy k s)"
| "rmatch (PlusLazy k) (s, g) =
     (case s of [] \<Rightarrow> []
      | c # cs \<Rightarrow> if in_class k c then map (\<lambda>r. (r, g)) (star_lazy k cs) else [])"
| "rmatch (Group a) (s, g) =
     map (\<lambda>(r, _). (r, Some (take (length s - length r) s))) (rmatch a (s, g))"

text \<open>
  \<^verbatim>\<open>re.search(pattern, s)\<close>: the first match at the leftmost position that has one.
  The result is \<open>None\<close> when no position matches, and otherwise the value of
  \<^verbatim>\<open>group(1)\<close>, which is itself \<open>None\<close> for a group that took no part in the match.
\<close>

fun search :: "regex \<Rightarrow> ustring \<Rightarrow> ustring option option" where
  "search r [] = (case rmatch r ([], None) of [] \<Rightarrow> None | (_, g) # _ \<Rightarrow> Some g)"
| "search r (c # cs) =
     (case rmatch r (c # cs, None) of [] \<Rightarrow> search r cs | (_, g) # _ \<Rightarrow> Some g)"

section \<open>The extractor\<close>

definition fence :: ustring where
  "fence = u ''```''"

text \<open>\<^verbatim>\<open>(?:r|R|python|Python)\<close>\<close>

definition tag_r :: ustring where "tag_r = u ''r''"
definition tag_R :: ustring where "tag_R = u ''R''"
definition tag_python :: ustring where "tag_python = u ''python''"
definition tag_Python :: ustring where "tag_Python = u ''Python''"

definition tags :: regex where
  "tags = Alt (Lit tag_r) (Alt (Lit tag_R) (Alt (Lit tag_python) (Lit tag_Python)))"

text \<open>\<^verbatim>\<open>```(?:r|R|python|Python)\s*\n#\s*(.+?)\n\<close>\<close>

definition desc_pattern :: regex where
  "desc_pattern =
     Cat (Lit fence) (Cat tags (Cat (Star Space) (Cat (Lit [NL])
       (Cat (Lit [HASH]) (Cat (Star Space) (Cat (Group (PlusLazy AnyButNL)) (Lit [NL])))))))"

text \<open>\<^verbatim>\<open>```(?:r|R|python|Python)\s*\n(.*?)\n```\<close> with \<^verbatim>\<open>re.DOTALL\<close>\<close>

definition code_pattern :: regex where
  "code_pattern =
     Cat (Lit fence) (Cat tags (Cat (Star Space) (Cat (Lit [NL])
       (Cat (Group (StarLazy AnyChar)) (Lit (NL # fence))))))"

text \<open>
  The exceptions the model distinguishes. The first six are what \<^verbatim>\<open>open\<close>, \<^verbatim>\<open>read\<close>,
  \<^verbatim>\<open>write\<close> and \<^verbatim>\<open>mkdir\<close> raise; \<^verbatim>\<open>AttributeError\<close> is what \<^verbatim>\<open>group(1).strip()\<close> raises on a group
  that is \<^verbatim>\<open>None\<close>; \<^verbatim>\<open>UnicodeEncodeError\<close> is what writing text that cannot be encoded
  raises. All of them are instances of \<^verbatim>\<open>Exception\<close>.
\<close>

datatype exn =
    FileNotFoundError
  | PermissionError
  | IsADirectoryError
  | FileExistsError
  | UnicodeDecodeError
  | OSError
  | AttributeError
  | UnicodeEncodeError

text \<open>The string \<^verbatim>\<open>"\<close>U+4EE3 U+7801 U+793A U+4F8B\<^verbatim>\<open>"\<close> (``code sample'').\<close>

definition fallback :: ustring where
  "fallback = [20195, 30721, 31034, 20363]"

text \<open>
  The body of the \<^verbatim>\<open>try\<close> block of \<^verbatim>\<open>extract_description_from_md\<close> after the file has
  been read (lines 39 to 46), on the text of the file.
\<close>

definition description_of_text :: "ustring \<Rightarrow> exn + ustring" where
  "description_of_text content =
     (case search desc_pattern content of
        Some (Some g) \<Rightarrow> Inr (py_strip g)
      | Some None \<Rightarrow> Inl AttributeError
      | None \<Rightarrow> Inr fallback)"

text \<open>The same for \<^verbatim>\<open>extract_code_from_md\<close> (lines 65 to 71).\<close>

definition code_of_text :: "ustring \<Rightarrow> exn + ustring" where
  "code_of_text content =
     (case search code_pattern content of
        Some (Some g) \<Rightarrow> Inr (py_strip g)
      | Some None \<Rightarrow> Inl AttributeError
      | None \<Rightarrow> Inr [])"

section \<open>Files, diagnostics and items\<close>

text \<open>
  What the script reads and writes. \<open>listdir\<close> gives, for a category name, the names in
  the directory \<^verbatim>\<open>img_base_path / dir_name\<close> in the order in which the file system
  enumerates them, or \<open>None\<close> when the directory does not exist. \<open>path_exists\<close> is
  \<^verbatim>\<open>Path.exists()\<close> for a name in that directory, taken to answer without raising; it
  follows links, so a listed name that is a dangling link does not exist. \<open>read_text\<close> is
  the result of opening a file of that directory as UTF-8 text and reading it: the text
  as the text mode of Python delivers it (line ends already turned into line breaks),
  or the exception raised. \<open>pages\<close> are the files of the output directory, \<open>None\<close> while
  that directory does not exist; \<open>mkdir_error\<close> and \<open>open_error\<close> say which exception, if
  any, creating the output directory and opening a page for writing raise, and
  \<open>write_error\<close> which exception the operating system raises while the page is written,
  together with the number of code points that have reached the file by then. File
  names are compared as on a POSIX system, where case matters.
\<close>

record filesystem =
  listdir :: "ustring \<Rightarrow> ustring list option"
  path_exists :: "ustring \<Rightarrow> ustring \<Rightarrow> bool"
  read_text :: "ustring \<Rightarrow> ustring \<Rightarrow> exn + ustring"
  pages :: "(ustring \<Rightarrow> ustring option) option"
  mkdir_error :: "exn option"
  open_error :: "ustring \<Rightarrow> exn option"
  write_error :: "ustring \<Rightarrow> (exn \<times> nat) option"

text \<open>
  Text that the strict UTF-8 codec encodes: it holds no surrogate code point (U+D800
  to U+DFFF). A file name that is not valid UTF-8 reaches Python with such code points
  (\<^verbatim>\<open>surrogateescape\<close>).
\<close>

definition encodable :: "ustring \<Rightarrow> bool" where
  "encodable s = list_all (\<lambda>c. c < 55296 \<or> 57343 < c) s"

text \<open>
  The lines the script prints, one constructor for each \<^verbatim>\<open>print\<close> of the class: the
  warning for a file that cannot be read (directory, file name, exception), for a
  directory that does not exist, for a category without items, and the two lines
  after a page has been written (its file name, the number of its items).
\<close>

datatype message =
    WarnUnreadable ustring ustring exn
  | WarnNoDirectory ustring
  | WarnNoItems ustring
  | Generated ustring
  | Contains nat

text \<open>
  The standard output is taken to be UTF-8 with strict error handling. It takes the
  fixed texts, the text of an exception (which shows a file name in escaped form) and
  the paths and category names that the caller supplies. The one text that comes from
  the scanned directory is the name of a documentation file, in the warning of the two
  \<^verbatim>\<open>except\<close> handlers: when that name cannot be encoded, \<^verbatim>\<open>print\<close> raises inside the
  handler, and the exception leaves the function. Otherwise the handler prints the
  warning and returns the default.
\<close>

definition warn_unreadable :: "ustring \<Rightarrow> ustring \<Rightarrow> exn \<Rightarrow> 'a \<Rightarrow> message list \<times> (exn + 'a)" where
  "warn_unreadable dir_name md_file e default_value =
     (if encodable md_file then ([WarnUnreadable dir_name md_file e], Inr default_value)
      else ([], Inl UnicodeEncodeError))"

record item =
  title :: ustring
  description :: ustring
  image_path :: ustring
  code :: ustring

text \<open>
  The two extractors: the lines printed, and the value returned (\<open>Inr\<close>) or the
  exception that leaves the function (\<open>Inl\<close>).
\<close>

definition extract_description_from_md ::
  "filesystem \<Rightarrow> ustring \<Rightarrow> ustring \<Rightarrow> message list \<times> (exn + ustring)" where
  "extract_description_from_md fs dir_name md_file =
     (case read_text fs dir_name md_file of
        Inl e \<Rightarrow> warn_unreadable dir_name md_file e fallback
      | Inr content \<Rightarrow>
          (case description_of_text content of
             Inl e \<Rightarrow> warn_unreadable dir_name md_file e fallback
           | Inr d \<Rightarrow> ([], Inr d)))"

definition extract_code_from_md ::
  "filesystem \<Rightarrow> ustring \<Rightarrow> ustring \<Rightarrow> message list \<times> (exn + ustring)" where
  "extract_code_from_md fs dir_name md_file =
     (case read_text fs dir_name md_file of
        Inl e \<Rightarrow> warn_unreadable dir_name md_file e []
      | Inr content \<Rightarrow>
          (case code_of_text content of
             Inl e \<Rightarrow> warn_unreadable dir_name md_file e []
           | Inr c \<Rightarrow> ([], Inr c)))"

section \<open>Scanning a category directory\<close>

text \<open>\<^verbatim>\<open>target_dir.glob('*.md')\<close>: the names that end in \<^verbatim>\<open>.md\<close>, hidden files included.\<close>

definition glob_md :: "ustring \<Rightarrow> bool" where
  "glob_md name = suffix (u ''.md'') name"

text \<open>\<^verbatim>\<open>name.rfind(c)\<close>: the index of the last \<open>c\<close>, if there is one.\<close>

fun rfind :: "codepoint \<Rightarrow> ustring \<Rightarrow> nat option" where
  "rfind c [] = None"
| "rfind c (x # xs) =
     (case rfind c xs of Some i \<Rightarrow> Some (Suc i) | None \<Rightarrow> if x = c then Some 0 else None)"

text \<open>
  \<^verbatim>\<open>PurePath.stem\<close> (Python 3.4 to 3.13): the name without its last suffix; a name whose
  only dot is its first or its last character has no suffix.
\<close>

definition py_stem :: "ustring \<Rightarrow> ustring" where
  "py_stem name =
     (case rfind 46 name of
        None \<Rightarrow> name
      | Some i \<Rightarrow> if 0 < i \<and> i < length name - 1 then take i name else name)"

text \<open>
  The loop of \<^verbatim>\<open>scan_directory\<close> over the sorted documentation files. An exception that
  leaves an extractor leaves the loop; the lines printed until then stay printed.
\<close>

fun scan_loop ::
  "filesystem \<Rightarrow> ustring \<Rightarrow> ustring list \<Rightarrow> message list \<times> (exn + item list)" where
  "scan_loop fs dir_name [] = ([], Inr [])"
| "scan_loop fs dir_name (md_file # rest) =
     (let base_name = py_stem md_file;
          png_name = base_name @ u ''.png''
      in if path_exists fs dir_name png_name then
           (case extract_description_from_md fs dir_name md_file of
              (m1, Inl e) \<Rightarrow> (m1, Inl e)
            | (m1, Inr d) \<Rightarrow>
                (case extract_code_from_md fs dir_name md_file of
                   (m2, Inl e) \<Rightarrow> (m1 @ m2, Inl e)
                 | (m2, Inr c) \<Rightarrow>
                     (case scan_loop fs dir_name rest of
                        (ms, Inl e) \<Rightarrow> (m1 @ m2 @ ms, Inl e)
                      | (ms, Inr items) \<Rightarrow>
                          (m1 @ m2 @ ms,
                           Inr (\<lparr>title = base_name, description = d,
                                 image_path = u ''../img/'' @ dir_name @ u ''/'' @ png_name,
                                 code = c\<rparr> # items)))))
         else scan_loop fs dir_name rest)"

text \<open>
  \<^verbatim>\<open>sorted\<close> compares the paths; they differ in their last component only, so the order
  is the order of the file names as strings, which is the lexicographic order of their
  code points.
\<close>

definition scan_directory :: "filesystem \<Rightarrow> ustring \<Rightarrow> message list \<times> (exn + item list)" where
  "scan_directory fs dir_name =
     (case listdir fs dir_name of
        None \<Rightarrow> ([WarnNoDirectory dir_name], Inr [])
      | Some es \<Rightarrow> scan_loop fs dir_name (sort (filter glob_md es)))"

section \<open>Rendering\<close>

definition detect_language :: "ustring \<Rightarrow> ustring \<times> ustring" where
  "detect_language dir_name =
     (let dir_lower = py_lower dir_name
      in if py_in (u ''r code'') dir_lower \<or> py_in (u ''r-code'') dir_lower then (u ''R'', u ''r'')
         else if py_in (u ''python'') dir_lower then (u ''Python'', u ''python'')
         else if py_in (u ''javascript'') dir_lower \<or> py_in (u ''js'') dir_lower
           then (u ''JavaScript'', u ''javascript'')
         else (u ''Code'', u ''plaintext''))"

text \<open>
  The three templates of \<^verbatim>\<open>generate_html_content\<close>, line by line. Text outside ASCII
  and the apostrophe are written as code points.
\<close>

definition gallery_item_html :: "nat \<Rightarrow> item \<Rightarrow> ustring" where
  \<open>gallery_item_html i item =
     [NL] @
     u ''            <!-- Item '' @ str_nat i @ u '': '' @ title item @ u '' -->'' @ [NL] @
     u ''            <div class="gallery-item">'' @ [NL] @
     u ''                <div class="gallery-image-wrapper">'' @ [NL] @
     u ''                    <img src="'' @ image_path item @ u ''" alt="'' @ title item @ u ''" class="gallery-image">'' @ [NL] @
     u ''                    <div class="gallery-overlay">'' @ [NL] @
     u ''                        <button class="view-code-btn" onclick="openModal('' @ [39] @ u ''modal-'' @ str_nat i @ [39] @ u '')">'' @ [26597, 30475, 20195, 30721] @ u ''</button>'' @ [NL] @
     u ''                    </div>'' @ [NL] @
     u ''                </div>'' @ [NL] @
     u ''                <div class="gallery-info">'' @ [NL] @
     u ''                    <h3 class="gallery-item-title">'' @ title item @ u ''</h3>'' @ [NL] @
     u ''                    <p class="gallery-item-description">'' @ description item @ u ''</p>'' @ [NL] @
     u ''                </div>'' @ [NL] @
     u ''            </div>'' @ [NL]\<close>

definition modal_html :: "ustring \<Rightarrow> ustring \<Rightarrow> nat \<Rightarrow> item \<Rightarrow> ustring" where
  \<open>modal_html lang_name lang_code i item =
     [NL] @
     u ''    <!-- Modal '' @ str_nat i @ u '': '' @ title item @ u '' -->'' @ [NL] @
     u ''    <div id="modal-'' @ str_nat i @ u ''" class="modal">'' @ [NL] @
     u ''        <div class="modal-content">'' @ [NL] @
     u ''            <span class="modal-close" onclick="closeModal('' @ [39] @ u ''modal-'' @ str_nat i @ [39] @ u '')">&times;</span>'' @ [NL] @
     u ''            <h2>'' @ title item @ u '' - '' @ lang_name @ u '' Code</h2>'' @ [NL] @
     u ''            <pre><code class="language-'' @ lang_code @ u ''">'' @ code item @ u ''</code></pre>'' @ [NL] @
     u ''            <div class="modal-image">'' @ [NL] @
     u ''                <img src="'' @ image_path item @ u ''" alt="'' @ title item @ u ''">'' @ [NL] @
     u ''            </div>'' @ [NL] @
     u ''        </div>'' @ [NL] @
     u ''    </div>'' @ [NL]\<close>

definition page_html :: "ustring \<Rightarrow> ustring \<Rightarrow> ustring \<Rightarrow> ustring \<Rightarrow> ustring" where
  \<open>page_html page_title gallery_items_html modals_html prism_lang_component =
     u ''<!DOCTYPE html>'' @ [NL] @
     u ''<html lang="zh-CN">'' @ [NL] @
     u ''<head>'' @ [NL] @
     u ''    <meta charset="UTF-8">'' @ [NL] @
     u ''    <meta name="viewport" content="width=device-width, initial-scale=1.0">'' @ [NL] @
     u ''    <title>'' @ page_title @ u ''</title>'' @ [NL] @
     u ''    <link rel="stylesheet" href="../css/styles.css">'' @ [NL] @
     u ''    <link rel="stylesheet" href="../css/gallery.css">'' @ [NL] @
     u ''    <link rel="stylesheet" href="https://cdnjs.cloudflare.com/ajax/libs/prism/1.29.0/themes/prism-tomorrow.min.css">'' @ [NL] @
     u ''</head>'' @ [NL] @
     u ''<body class="dark">'' @ [NL] @
     u ''    <!-- Background Canvas -->'' @ [NL] @
     u ''    <canvas id="background-canvas"></canvas>'' @ [NL] @
     [NL] @
     u ''    <!-- Top navigation -->'' @ [NL] @
     u ''    <nav class="top-nav fade-in">'' @ [NL] @
     u ''        <a href="../index.html">Home</a>'' @ [NL] @
     u ''        <a href="introduction.html">Introduction</a>'' @ [NL] @
     u ''        <a href="r-code.html">R code</a>'' @ [NL] @
     u ''        <a href="python-code.html">Python code</a>'' @ [NL] @
     u ''        <a href="other-code.html">Other code</a>'' @ [NL] @
     u ''    </nav>'' @ [NL] @
     [NL] @
     u ''    <!-- Main content -->'' @ [NL] @
     u ''    <main class="gallery-content fade-in">'' @ [NL] @
     u ''        <h1 class="gallery-title">'' @ page_title @ u ''</h1>'' @ [NL] @
     u ''        '' @ [NL] @
     u ''        <div class="gallery-grid">'' @ [NL] @
     gallery_items_html @ [NL] @
     u ''        </div>'' @ [NL] @
     u ''    </main>'' @ [NL] @
     [NL] @
     u ''    <!-- Footer -->'' @ [NL] @
     u ''    <footer class="footer fade-in">'' @ [NL] @
     u ''        <div class="container">'' @ [NL] @
     u ''            <div class="footer-content">'' @ [NL] @
     u ''                <div class="footer-section">'' @ [NL] @
     u ''                    <h4>'' @ [20195, 30721, 31354, 38388] @ u ''</h4>'' @ [NL] @
     u ''                    <p>'' @ [25552, 20379, 31616, 27905, 32654, 35266, 30340, 20195, 30721, 12290] @ u ''</p>'' @ [NL] @
     u ''                    <div class="footer-social">'' @ [NL] @
     u ''                        <a href="https://www.webofscience.com/wos/author/record/491521" class="social-link">Obsidian</a>'' @ [NL] @
     u ''                        <a href="https://www.webofscience.com/wos/author/record/491521" class="social-link">Web of Science</a>'' @ [NL] @
     u ''                        <a href="https://scholar.google.com/citations?user=FLRq3GEAAAAJ&hl=zh-TW&oi=sra" class="social-link">Google Scholar</a>'' @ [NL] @
     u ''                        <a href="https://www.researchgate.net/profile/Guanglin-He-heguanglin-2/research" class="social-link">Research Gate</a>'' @ [NL] @
     u ''                    </div>'' @ [NL] @
     u ''                </div>'' @ [NL] @
     u ''                <div class="footer-section">'' @ [NL] @
     u ''                    <h4>'' @ [32852, 31995, 25105, 20204] @ u ''</h4>'' @ [NL] @
     u ''                    <div class="contact-info">'' @ [NL] @
     u ''                        <p>'' @ [128231] @ u '' gianthuihui@gmail.com</p>'' @ [NL] @
     u ''                    </div>'' @ [NL] @
     u ''                </div>'' @ [NL] @
     u ''            </div>'' @ [NL] @
     u ''            <div class="footer-bottom">'' @ [NL] @
     u ''                <p><a href="https://beian.miit.gov.cn/" target="_blank" rel="noopener noreferrer">'' @ [34560] @ u ''ICP'' @ [22791] @ u ''2025140770'' @ [21495] @ u ''-3</a> &copy; </p>'' @ [NL] @
     u ''            </div>'' @ [NL] @
     u ''        </div>'' @ [NL] @
     u ''    </footer>'' @ [NL] @
     [NL] @
     u ''    <!-- Modals for code display -->'' @ [NL] @
     modals_html @ [NL] @
     [NL] @
     u ''    <script src="../js/page-load.js"></script>'' @ [NL] @
     u ''    <script src="../js/background.js"></script>'' @ [NL] @
     u ''    <script src="../js/modal.js"></script>'' @ [NL] @
     u ''    <script src="https://cdnjs.cloudflare.com/ajax/libs/prism/1.29.0/prism.min.js"></script>'' @ [NL] @
     u ''    <script src="'' @ prism_lang_component @ u ''"></script>'' @ [NL] @
     u ''</body>'' @ [NL] @
     u ''</html>'' @ [NL]\<close>

text \<open>The two loops \<^verbatim>\<open>for i, item in enumerate(items, 1)\<close>, each adding to its string.\<close>

fun gallery_loop :: "nat \<Rightarrow> item list \<Rightarrow> ustring \<Rightarrow> ustring" where
  "gallery_loop i [] acc = acc"
| "gallery_loop i (item # items) acc = gallery_loop (Suc i) items (acc @ gallery_item_html i item)"

fun modals_loop :: "ustring \<Rightarrow> ustring \<Rightarrow> nat \<Rightarrow> item list \<Rightarrow> ustring \<Rightarrow> ustring" where
  "modals_loop lang_name lang_code i [] acc = acc"
| "modals_loop lang_name lang_code i (item # items) acc =
     modals_loop lang_name lang_code (Suc i) items (acc @ modal_html lang_name lang_code i item)"

definition generate_html_content :: "ustring \<Rightarrow> item list \<Rightarrow> ustring" where
  "generate_html_content dir_name items =
     (let (lang_name, lang_code) = detect_language dir_name;
          page_title = lang_name @ u '' Code Gallery'';
          gallery_items_html = gallery_loop 1 items [];
          modals_html = modals_loop lang_name lang_code 1 items [];
          prism_lang_component =
            u ''https://cdnjs.cloudflare.com/ajax/libs/prism/1.29.0/components/prism-'' @
            lang_code @ u ''.min.js''
      in page_html page_title gallery_items_html modals_html prism_lang_component)"

section \<open>Writing a page\<close>

text \<open>\<^verbatim>\<open>self.pages_base_path.mkdir(parents=True, exist_ok=True)\<close>\<close>

definition mkdir_pages :: "filesystem \<Rightarrow> exn + filesystem" where
  "mkdir_pages fs =
     (case pages fs of
        Some _ \<Rightarrow> Inr fs
      | None \<Rightarrow>
          (case mkdir_error fs of
             Some e \<Rightarrow> Inl e
           | None \<Rightarrow> Inr (fs\<lparr>pages := Some (\<lambda>_. None)\<rparr>)))"

text \<open>
  \<^verbatim>\<open>with open(output_path, 'w', encoding='utf-8') as f: f.write(html_content)\<close>. Opening
  creates the file or empties it. The text is encoded as a whole before anything is
  written, so text that cannot be encoded raises and leaves the file empty; an error of
  the operating system leaves the part of the text that was written.
\<close>

definition write_page :: "filesystem \<Rightarrow> ustring \<Rightarrow> ustring \<Rightarrow> filesystem \<times> (exn + unit)" where
  "write_page fs output_filename html_content =
     (case pages fs of
        None \<Rightarrow> (fs, Inl FileNotFoundError)
      | Some files \<Rightarrow>
          (case open_error fs output_filename of
             Some e \<Rightarrow> (fs, Inl e)
           | None \<Rightarrow>
               if \<not> encodable html_content
               then (fs\<lparr>pages := Some (files(output_filename \<mapsto> []))\<rparr>, Inl UnicodeEncodeError)
               else
                 (case write_error fs output_filename of
                    Some (e, n) \<Rightarrow>
                      (fs\<lparr>pages := Some (files(output_filename \<mapsto> take n html_content))\<rparr>, Inl e)
                  | None \<Rightarrow>
                      (fs\<lparr>pages := Some (files(output_filename \<mapsto> html_content))\<rparr>, Inr ()))))"

text \<open>
  \<^verbatim>\<open>generate_page\<close>: the lines it prints, the file system it leaves, and whether it
  returns (\<open>Inr ()\<close>) or raises. \<open>str_lower\<close> stands for \<^verbatim>\<open>str.lower\<close> in full, with the
  lower-case mapping of the Unicode database, which the derived file name needs for
  capitals outside ASCII.
\<close>

definition generate_page ::
  "(ustring \<Rightarrow> ustring) \<Rightarrow> filesystem \<Rightarrow> ustring \<Rightarrow> ustring option \<Rightarrow>
     message list \<times> filesystem \<times> (exn + unit)" where
  "generate_page str_lower fs dir_name output_filename =
     (case scan_directory fs dir_name of
        (msgs, Inl e) \<Rightarrow> (msgs, fs, Inl e)
      | (msgs, Inr items) \<Rightarrow>
          if items = [] then (msgs @ [WarnNoItems dir_name], fs, Inr ())
          else
            (let html_content = generate_html_content dir_name items;
                 file_name =
                   (case output_filename of
                      None \<Rightarrow> replace_space (str_lower dir_name) @ u ''.html''
                    | Some n \<Rightarrow> n)
             in case mkdir_pages fs of
                  Inl e \<Rightarrow> (msgs, fs, Inl e)
                | Inr fs1 \<Rightarrow>
                    (case write_page fs1 file_name html_content of
                       (fs2, Inl e) \<Rightarrow> (msgs, fs2, Inl e)
                     | (fs2, Inr _) \<Rightarrow>
                         (msgs @ [Generated file_name, Contains (length items)], fs2, Inr ()))))"

section \<open>Notions used to state the properties\<close>

text \<open>The four tags the patterns accept.\<close>

definition tagset :: "ustring set" where
  "tagset = {tag_r, tag_R, tag_python, tag_Python}"

text \<open>
  \<open>opens_comment s\<close>: the text \<open>s\<close> starts with a recognised opening fence that is
  followed, after optional white space, by a line break and the comment marker.
\<close>

definition opens_comment :: "ustring \<Rightarrow> bool" where
  "opens_comment s \<longleftrightarrow>
     (\<exists>tag ws rest. tag \<in> tagset \<and> (\<forall>c\<in>set ws. isspace c) \<and>
        s = fence @ tag @ ws @ [NL, HASH] @ rest)"

text \<open>
  \<open>opens_block s\<close>: the text \<open>s\<close> starts with the opening line of a recognised block,
  that is a fence, a recognised tag, optional white space and a line break.
\<close>

definition opens_block :: "ustring \<Rightarrow> bool" where
  "opens_block s \<longleftrightarrow>
     (\<exists>tag ws rest. tag \<in> tagset \<and> (\<forall>c\<in>set ws. isspace c) \<and> s = fence @ tag @ ws @ [NL] @ rest)"

text \<open>
  \<open>spelling_of t w\<close>: \<open>t\<close> spells the lower-case word \<open>w\<close>, each letter in lower or in upper
  case.
\<close>

definition spelling_of :: "ustring \<Rightarrow> ustring \<Rightarrow> bool" where
  "spelling_of t w = list_all2 (\<lambda>c d. c = d \<or> c + 32 = d) t w"

text \<open>
  The description that consults the first recognised block only: the text after the
  opening line of the leftmost recognised opening fence, its first line, and from that
  line the comment, or else the fallback.
\<close>

definition opening_line_rest :: "ustring \<Rightarrow> ustring option" where
  "opening_line_rest s =
     (case filter (\<lambda>t. prefix (fence @ t) s) [tag_python, tag_Python, tag_r, tag_R] of
        [] \<Rightarrow> None
      | t # _ \<Rightarrow>
          (case dropWhile (\<lambda>c. isspace c \<and> c \<noteq> NL) (drop (length (fence @ t)) s) of
             [] \<Rightarrow> None
           | c # body \<Rightarrow> if c = NL then Some body else None))"

fun first_block :: "ustring \<Rightarrow> ustring option" where
  "first_block [] = None"
| "first_block (c # cs) =
     (case opening_line_rest (c # cs) of Some b \<Rightarrow> Some b | None \<Rightarrow> first_block cs)"

definition first_line :: "ustring \<Rightarrow> ustring" where
  "first_line b = takeWhile (\<lambda>c. c \<noteq> NL) b"

definition first_block_description :: "ustring \<Rightarrow> ustring" where
  "first_block_description content =
     (case first_block content of
        None \<Rightarrow> fallback
      | Some b \<Rightarrow>
          (case first_line b of
             [] \<Rightarrow> fallback
           | c # l \<Rightarrow> if c = HASH then py_strip l else fallback))"

text \<open>
  \<open>has_image fs dir_name md_file\<close>: the image that \<open>scan_directory\<close> looks for beside the
  documentation file \<open>md_file\<close> exists.
\<close>

definition has_image :: "filesystem \<Rightarrow> ustring \<Rightarrow> ustring \<Rightarrow> bool" where
  "has_image fs dir_name md_file \<longleftrightarrow> path_exists fs dir_name (py_stem md_file @ u ''.png'')"











section \<open>Files and directories of the examples\<close>

text \<open>An empty block tagged \<^verbatim>\<open>r\<close>, a line of text, and a \<^verbatim>\<open>python\<close> block.\<close>

definition empty_block_file :: ustring where
  "empty_block_file =
     u ''```r'' @ [NL] @
     u ''```'' @ [NL] @
     u ''text'' @ [NL] @
     u ''```python'' @ [NL] @
     u ''print(1)'' @ [NL] @
     u ''```'' @ [NL]"

text \<open>Two blocks tagged \<^verbatim>\<open>r\<close>; only the second starts with a comment line.\<close>

definition two_blocks_file :: ustring where
  "two_blocks_file =
     u ''```r'' @ [NL] @
     u ''x <- 1'' @ [NL] @
     u ''```'' @ [NL] @
     u ''```r'' @ [NL] @
     u ''# second'' @ [NL] @
     u ''y <- 2'' @ [NL] @
     u ''```'' @ [NL]"

text \<open>A line of text, then a \<^verbatim>\<open>python\<close> block that starts with a comment line.\<close>

definition commented_file :: ustring where
  "commented_file =
     u ''Scatter'' @ [NL] @
     u ''```python'' @ [NL] @
     u ''#  Scatter plot '' @ [NL] @
     u ''import x'' @ [NL] @
     u ''```'' @ [NL]"

text \<open>A file without any fence.\<close>

definition plain_file :: ustring where
  "plain_file = u ''No code here.'' @ [NL]"

text \<open>A block whose first line is the bare comment marker.\<close>

definition bare_marker_file :: ustring where
  "bare_marker_file =
     u ''```r'' @ [NL] @
     u ''#'' @ [NL] @
     u ''x <- 1'' @ [NL] @
     u ''```'' @ [NL]"

text \<open>A block whose tag is spelled in capitals.\<close>

definition capitals_file :: ustring where
  "capitals_file =
     u ''```PYTHON'' @ [NL] @
     u ''# plot'' @ [NL] @
     u ''x = 1'' @ [NL] @
     u ''```'' @ [NL]"

text \<open>
  A category directory with two documentation files and their images, enumerated out
  of order; \<^verbatim>\<open>a.md\<close> cannot be read.
\<close>

definition gallery_dir :: ustring where
  "gallery_dir = u ''R code''"

definition unreadable_fs :: filesystem where
  "unreadable_fs =
     \<lparr>listdir = (\<lambda>d. if d = gallery_dir
                       then Some [u ''b.png'', u ''b.md'', u ''a.md'', u ''a.png''] else None),
      path_exists = (\<lambda>d n. d = gallery_dir \<and>
                       n \<in> set [u ''b.png'', u ''b.md'', u ''a.md'', u ''a.png'']),
      read_text = (\<lambda>d n. if n = u ''b.md'' then Inr commented_file else Inl PermissionError),
      pages = None, mkdir_error = None, open_error = (\<lambda>n. None), write_error = (\<lambda>n. None)\<rparr>"

text \<open>
  The same directory, where the file that cannot be read has a name that is not valid
  UTF-8: the byte FF, which Python reads as the code point U+DCFF, before \<^verbatim>\<open>.md\<close>.
\<close>

definition surrogate_fs :: filesystem where
  "surrogate_fs =
     \<lparr>listdir = (\<lambda>d. if d = gallery_dir
                       then Some [u ''b.png'', u ''b.md'', 56575 # u ''.md'', 56575 # u ''.png'']
                       else None),
      path_exists = (\<lambda>d n. d = gallery_dir \<and>
                       n \<in> set [u ''b.png'', u ''b.md'', 56575 # u ''.md'', 56575 # u ''.png'']),
      read_text = (\<lambda>d n. if n = u ''b.md'' then Inr commented_file else Inl PermissionError),
      pages = None, mkdir_error = None, open_error = (\<lambda>n. None), write_error = (\<lambda>n. None)\<rparr>"

text \<open>A file system where the category directory exists and is empty.\<close>

definition empty_dir_fs :: filesystem where
  "empty_dir_fs =
     \<lparr>listdir = (\<lambda>d. if d = gallery_dir then Some [] else None),
      path_exists = (\<lambda>d n. False),
      read_text = (\<lambda>d n. Inl FileNotFoundError),
      pages = None, mkdir_error = None, open_error = (\<lambda>n. None), write_error = (\<lambda>n. None)\<rparr>"



text \<open>Two pairs whose base names are \<^verbatim>\<open>a\<close> and \<^verbatim>\<open>a-b\<close>.\<close>

definition prefix_fs :: filesystem where
  "prefix_fs =
     \<lparr>listdir = (\<lambda>d. if d = gallery_dir
                       then Some [u ''a.md'', u ''a.png'', u ''a-b.md'', u ''a-b.png''] else None),
      path_exists = (\<lambda>d n. d = gallery_dir \<and>
                       n \<in> set [u ''a.md'', u ''a.png'', u ''a-b.md'', u ''a-b.png'']),
      read_text = (\<lambda>d n. Inr commented_file),
      pages = None, mkdir_error = None, open_error = (\<lambda>n. None), write_error = (\<lambda>n. None)\<rparr>"

text \<open>The same directory, enumerated in the opposite order.\<close>

definition reversed_fs :: filesystem where
  "reversed_fs = prefix_fs\<lparr>listdir := (\<lambda>d. map_option rev (listdir prefix_fs d))\<rparr>"




section \<open>Evaluation\<close>

lemmas eval_defs =
  description_of_text_def code_of_text_def desc_pattern_def code_pattern_def tags_def fence_def
  tag_r_def tag_R_def tag_python_def tag_Python_def u_def isspace_def py_strip_def fallback_def

section \<open>Properties of the matcher\<close>

text \<open>What the states of a match are, construct by construct.\<close>

lemma in_star_greedy:
  "t \<in> set (star_greedy k s) \<longleftrightarrow> (\<exists>w. s = w @ t \<and> (\<forall>c\<in>set w. in_class k c))"
proof (induction s)
  case Nil
  then show ?case by auto
next
  case (Cons c cs)
  show ?case
  proof
    assume "t \<in> set (star_greedy k (c # cs))"
    then consider "t = c # cs" | "in_class k c" "t \<in> set (star_greedy k cs)"
      by (auto split: if_splits)
    then show "\<exists>w. c # cs = w @ t \<and> (\<forall>c\<in>set w. in_class k c)"
    proof cases
      case 1
      then show ?thesis by (intro exI[of _ "[]"]) simp
    next
      case 2
      with Cons.IH obtain w where "cs = w @ t" "\<forall>c\<in>set w. in_class k c" by blast
      with 2 show ?thesis by (intro exI[of _ "c # w"]) simp
    qed
  next
    assume "\<exists>w. c # cs = w @ t \<and> (\<forall>c\<in>set w. in_class k c)"
    then obtain w where w: "c # cs = w @ t" "\<forall>c\<in>set w. in_class k c" by blast
    show "t \<in> set (star_greedy k (c # cs))"
    proof (cases w)
      case Nil
      with w show ?thesis by auto
    next
      case (Cons d w')
      with w have "cs = w' @ t" "in_class k c" "\<forall>c\<in>set w'. in_class k c" by auto
      with Cons.IH show ?thesis by auto
    qed
  qed
qed

lemma in_rmatch_Lit:
  "(t, g') \<in> set (rmatch (Lit w) (s, g)) \<longleftrightarrow> s = w @ t \<and> g' = g"
  by (auto simp: prefix_def)

lemma in_rmatch_Cat:
  "x \<in> set (rmatch (Cat a b) st) \<longleftrightarrow> (\<exists>y\<in>set (rmatch a st). x \<in> set (rmatch b y))"
  by auto

lemma in_rmatch_Star:
  "(t, g') \<in> set (rmatch (Star k) (s, g)) \<longleftrightarrow>
     g' = g \<and> (\<exists>w. s = w @ t \<and> (\<forall>c\<in>set w. in_class k c))"
  by (auto simp: in_star_greedy)

lemma in_rmatch_tags:
  "(t, g') \<in> set (rmatch tags (s, g)) \<longleftrightarrow> g' = g \<and> (\<exists>tag\<in>tagset. s = tag @ t)"
  unfolding tagset_def tags_def
  by (auto simp: prefix_def)

text \<open>The search fails exactly when no suffix of the text has a match at its front.\<close>

lemma search_None_iff:
  "search r s = None \<longleftrightarrow> (\<forall>t. suffix t s \<longrightarrow> rmatch r (t, None) = [])"
  by (induction s) (auto simp: suffix_Cons split: list.splits)

lemma search_skip:
  "(\<forall>q. suffix q p \<longrightarrow> q \<noteq> [] \<longrightarrow> rmatch r (q @ s, None) = []) \<Longrightarrow>
   search r (p @ s) = search r s"
  by (induction p) (auto simp: suffix_Cons)

text \<open>The first tries of the matcher on the pieces of the two patterns.\<close>

lemma rmatch_tags: "tag \<in> tagset \<Longrightarrow> rmatch tags (tag @ x, g) = [(x, g)]"
  unfolding tagset_def
  by (auto simp: tags_def tag_r_def tag_R_def tag_python_def tag_Python_def u_def)

lemma rmatch_Cat_Lit: "rmatch (Cat (Lit w) r) (w @ x, g) = rmatch r (x, g)"
  by simp

lemma rmatch_Cat_Star:
  "rmatch (Cat (Star k) r) (s, g) = concat (map (\<lambda>q. rmatch r (q, g)) (star_greedy k s))"
  by (simp add: comp_def)

lemma star_greedy_append:
  "\<forall>c\<in>set ws. in_class k c \<Longrightarrow>
   star_greedy k (ws @ r) = star_greedy k r @ map (\<lambda>q. q @ r) (tl (suffixes ws))"
proof (induction ws)
  case Nil
  then show ?case by simp
next
  case (Cons c ws)
  have "suffixes ws \<noteq> []" by (cases ws) auto
  then have "tl (suffixes ws @ [c # ws]) = tl (suffixes ws) @ [c # ws]" by simp
  with Cons show ?case by simp
qed

lemma lazy_then_NL:
  "NL \<notin> set t \<Longrightarrow>
   concat (map (\<lambda>r. rmatch (Lit [NL]) (r, G r)) (star_lazy AnyButNL (t @ NL # post))) =
     [(post, G (NL # post))]"
  by (induction t) auto

lemma rmatch_comment_text:
  assumes "NL \<notin> set cm" "cm \<noteq> []"
  shows "rmatch (Cat (Group (PlusLazy AnyButNL)) (Lit [NL])) (cm @ NL # post, g) =
           [(post, Some cm)]"
proof -
  from assms obtain c t where cm: "cm = c # t" "c \<noteq> NL" "NL \<notin> set t"
    by (cases cm) auto
  have "rmatch (Cat (Group (PlusLazy AnyButNL)) (Lit [NL])) (cm @ NL # post, g) =
        concat (map (\<lambda>r. rmatch (Lit [NL])
                  (r, Some (take (length (cm @ NL # post) - length r) (cm @ NL # post))))
          (star_lazy AnyButNL (t @ NL # post)))"
    using cm by (simp add: comp_def)
  also have "\<dots> =
      [(post, Some (take (length (cm @ NL # post) - length (NL # post)) (cm @ NL # post)))]"
    using cm(3) by (rule lazy_then_NL)
  finally show ?thesis by simp
qed

lemma rmatch_comment_line:
  assumes sp: "\<forall>c\<in>set sp. isspace c"
    and cm: "cm \<noteq> []" "\<not> isspace (hd cm)" "NL \<notin> set cm"
  shows "\<exists>xs. rmatch (Cat (Star Space) (Cat (Group (PlusLazy AnyButNL)) (Lit [NL])))
            (sp @ cm @ NL # post, g) = (post, Some cm) # xs"
proof -
  let ?R = "Cat (Group (PlusLazy AnyButNL)) (Lit [NL])"
  from cm obtain c t where c: "cm = c # t" "\<not> isspace c" by (cases cm) auto
  have "star_greedy Space (sp @ cm @ NL # post) =
        star_greedy Space (cm @ NL # post) @ map (\<lambda>q. q @ cm @ NL # post) (tl (suffixes sp))"
    using sp by (intro star_greedy_append) simp
  also have "star_greedy Space (cm @ NL # post) = [cm @ NL # post]"
    using c by simp
  finally have "rmatch (Cat (Star Space) ?R) (sp @ cm @ NL # post, g) =
     rmatch ?R (cm @ NL # post, g) @
     concat (map (\<lambda>q. rmatch ?R (q, g)) (map (\<lambda>q. q @ cm @ NL # post) (tl (suffixes sp))))"
    by (simp only: rmatch_Cat_Star list.map map_append concat_append concat.simps
          append_Nil2 append_Cons append_Nil)
  then show ?thesis
    by (simp only: rmatch_comment_text[OF cm(3) cm(1)]) simp
qed

lemma rmatch_desc_block:
  assumes tag: "tag \<in> tagset" and ws: "\<forall>c\<in>set ws. isspace c"
    and sp: "\<forall>c\<in>set sp. isspace c"
    and cm: "cm \<noteq> []" "\<not> isspace (hd cm)" "NL \<notin> set cm"
  shows "\<exists>xs. rmatch desc_pattern (fence @ tag @ ws @ [NL, HASH] @ sp @ cm @ NL # post, None) =
           (post, Some cm) # xs"
proof -
  let ?Z = "sp @ cm @ NL # post"
  let ?R5 = "Cat (Star Space) (Cat (Group (PlusLazy AnyButNL)) (Lit [NL]))"
  let ?R3 = "Cat (Lit [NL]) (Cat (Lit [HASH]) ?R5)"
  from rmatch_comment_line[OF sp cm] obtain xs where
    xs: "rmatch ?R5 (?Z, None) = (post, Some cm) # xs" by blast
  have sg: "star_greedy Space (ws @ NL # HASH # ?Z) =
        [HASH # ?Z, NL # HASH # ?Z] @ map (\<lambda>q. q @ NL # HASH # ?Z) (tl (suffixes ws))"
    using ws by (subst star_greedy_append) (simp_all add: isspace_def)
  have r3a: "rmatch ?R3 (HASH # ?Z, None) = []" by simp
  have r3b: "rmatch ?R3 (NL # HASH # ?Z, None) = rmatch ?R5 (?Z, None)" by simp
  have "rmatch (Cat (Star Space) ?R3) (ws @ NL # HASH # ?Z, None) =
        rmatch ?R5 (?Z, None) @
        concat (map (\<lambda>q. rmatch ?R3 (q, None))
          (map (\<lambda>q. q @ NL # HASH # ?Z) (tl (suffixes ws))))"
    by (simp only: rmatch_Cat_Star sg list.map map_append concat_append concat.simps r3a r3b
          append_Nil append_Cons append_Nil2)
  then have "\<exists>ys. rmatch (Cat (Star Space) ?R3) (ws @ NL # HASH # ?Z, None) =
               (post, Some cm) # ys"
    by (simp only: xs) simp
  moreover have "rmatch desc_pattern (fence @ tag @ ws @ [NL, HASH] @ ?Z, None) =
     rmatch (Cat (Star Space) ?R3) (ws @ NL # HASH # ?Z, None)"
    unfolding desc_pattern_def
    by (simp only: rmatch_Cat_Lit)
       (simp add: rmatch_tags[OF tag] del: rmatch.simps(1,4) add: rmatch.simps(3))
  ultimately show ?thesis by simp
qed

section \<open>The description\<close>

lemma desc_match_opens_comment:
  assumes "rmatch desc_pattern (s, g) \<noteq> []"
  shows "opens_comment s"
proof -
  from assms obtain x where "x \<in> set (rmatch desc_pattern (s, g))"
    by (cases "rmatch desc_pattern (s, g)") auto
  then obtain y1 y2 y3 y4 y5 where
    y: "y1 \<in> set (rmatch (Lit fence) (s, g))" "y2 \<in> set (rmatch tags y1)"
       "y3 \<in> set (rmatch (Star Space) y2)" "y4 \<in> set (rmatch (Lit [NL]) y3)"
       "y5 \<in> set (rmatch (Lit [HASH]) y4)"
    unfolding desc_pattern_def in_rmatch_Cat by blast
  obtain s1 g1 where y1: "y1 = (s1, g1)" by (cases y1)
  obtain s2 g2 where y2: "y2 = (s2, g2)" by (cases y2)
  obtain s3 g3 where y3: "y3 = (s3, g3)" by (cases y3)
  obtain s4 g4 where y4: "y4 = (s4, g4)" by (cases y4)
  obtain s5 g5 where y5: "y5 = (s5, g5)" by (cases y5)
  from y(1) have 1: "s = fence @ s1" unfolding y1 in_rmatch_Lit by simp
  from y(2) obtain tag where 2: "tag \<in> tagset" "s1 = tag @ s2"
    unfolding y1 y2 in_rmatch_tags by blast
  from y(3) obtain ws where 3: "s2 = ws @ s3" "\<forall>c\<in>set ws. isspace c"
    unfolding y2 y3 in_rmatch_Star by auto
  from y(4) have 4: "s3 = [NL] @ s4" unfolding y3 y4 in_rmatch_Lit by simp
  from y(5) have 5: "s4 = [HASH] @ s5" unfolding y4 y5 in_rmatch_Lit by simp
  have "s = fence @ tag @ ws @ [NL, HASH] @ s5"
    using 1 2 3 4 5 by simp
  with 2(1) 3(2) show ?thesis unfolding opens_comment_def by blast
qed

lemma opens_comment_fence: "opens_comment s \<Longrightarrow> prefix fence s"
  unfolding opens_comment_def by auto

lemma no_backtick_no_opening:
  assumes "96 \<notin> set p" "suffix q p" "q \<noteq> []"
  shows "\<not> opens_comment (q @ s)"
proof
  assume "opens_comment (q @ s)"
  then have "prefix fence (q @ s)" by (rule opens_comment_fence)
  moreover obtain c q' where q: "q = c # q'" using assms(3) by (cases q) auto
  ultimately have "c = 96" by (simp add: fence_def u_def)
  moreover have "c \<in> set p" using assms(2) q by (auto simp: suffix_def)
  ultimately show False using assms(1) by simp
qed

lemma search_desc_comment:
  assumes tag: "tag \<in> tagset" and ws: "\<forall>c\<in>set ws. isspace c"
    and line: "NL \<notin> set line" "\<exists>c\<in>set line. \<not> isspace c"
    and first: "\<forall>q. suffix q pre \<longrightarrow> q \<noteq> [] \<longrightarrow>
                  \<not> opens_comment (q @ fence @ tag @ ws @ [NL, HASH] @ line @ [NL] @ post)"
  shows "search desc_pattern (pre @ fence @ tag @ ws @ [NL, HASH] @ line @ [NL] @ post) =
           Some (Some (dropWhile isspace line))"
proof -
  let ?sp = "takeWhile isspace line" and ?cm = "dropWhile isspace line"
  let ?block = "fence @ tag @ ws @ [NL, HASH] @ line @ [NL] @ post"
  have cm: "?cm \<noteq> []" "\<not> isspace (hd ?cm)" "NL \<notin> set ?cm"
    using line by (auto simp: hd_dropWhile dest: set_dropWhileD)
  have sp: "\<forall>c\<in>set ?sp. isspace c" by (auto dest: set_takeWhileD)
  from rmatch_desc_block[OF tag ws sp cm, of post] obtain xs where
    "rmatch desc_pattern (fence @ tag @ ws @ [NL, HASH] @ ?sp @ ?cm @ NL # post, None) =
       (post, Some ?cm) # xs" by blast
  moreover have "?sp @ ?cm @ NL # post = line @ NL # post"
    by (simp only: append_assoc[symmetric] takeWhile_dropWhile_id)
  ultimately have m: "rmatch desc_pattern (?block, None) = (post, Some ?cm) # xs"
    by simp
  have "search desc_pattern (pre @ ?block) = search desc_pattern ?block"
    using first desc_match_opens_comment by (intro search_skip) blast
  also have "\<dots> = Some (Some ?cm)"
  proof -
    obtain c cs where b: "?block = c # cs" by (cases ?block) (auto simp: fence_def u_def)
    show ?thesis using m unfolding b by simp
  qed
  finally show ?thesis .
qed

lemma py_strip_dropWhile: "py_strip (dropWhile isspace s) = py_strip s"
  by (simp add: py_strip_def)

lemma description_comment:
  assumes "tag \<in> tagset" "\<forall>c\<in>set ws. isspace c" "NL \<notin> set line" "\<exists>c\<in>set line. \<not> isspace c"
    "\<forall>q. suffix q pre \<longrightarrow> q \<noteq> [] \<longrightarrow>
        \<not> opens_comment (q @ fence @ tag @ ws @ [NL, HASH] @ line @ [NL] @ post)"
  shows "description_of_text (pre @ fence @ tag @ ws @ [NL, HASH] @ line @ [NL] @ post) =
           Inr (py_strip line)"
  unfolding description_of_text_def search_desc_comment[OF assms]
  by (simp add: py_strip_dropWhile)

lemma description_fallback:
  assumes "\<forall>t. suffix t content \<longrightarrow> \<not> opens_comment t"
  shows "description_of_text content = Inr fallback"
proof -
  have "search desc_pattern content = None"
    unfolding search_None_iff using assms desc_match_opens_comment by blast
  then show ?thesis by (simp add: description_of_text_def)
qed

text \<open>
  Claim C1, as the code has it. Take the first place in the text where a recognised
  opening fence (three backticks and one of \<^verbatim>\<open>r\<close>, \<^verbatim>\<open>R\<close>, \<^verbatim>\<open>python\<close>, \<^verbatim>\<open>Python\<close>) is
  followed, after optional white space, by a line break and the marker \<^verbatim>\<open>#\<close>. If the
  rest of that line holds a character that is not white space, the description is the
  rest of the line with the white space around it stripped; the recognised blocks
  before that place, whose first line is no comment, are passed over. If the text has
  no such place at all, the description is the fallback string.
\<close>

theorem description_of_text_first_comment:
  "(tag \<in> tagset \<and> (\<forall>c\<in>set ws. isspace c) \<and> NL \<notin> set line \<and> (\<exists>c\<in>set line. \<not> isspace c) \<and>
    (\<forall>q. suffix q pre \<longrightarrow> q \<noteq> [] \<longrightarrow>
        \<not> opens_comment (q @ fence @ tag @ ws @ [NL, HASH] @ line @ [NL] @ post)) \<longrightarrow>
    description_of_text (pre @ fence @ tag @ ws @ [NL, HASH] @ line @ [NL] @ post) =
      Inr (py_strip line)) \<and>
   ((\<forall>t. suffix t content \<longrightarrow> \<not> opens_comment t) \<longrightarrow>
    description_of_text content = Inr fallback)"
  using description_comment description_fallback by blast

theorem description_of_text_first_comment_witness:
  "description_of_text commented_file = Inr (u ''Scatter plot'') \<and>
   description_of_text plain_file = Inr fallback"
proof -
  let ?pre = "u ''Scatter'' @ [NL]" and ?line = "u ''  Scatter plot ''"
  let ?post = "u ''import x'' @ [NL] @ u ''```'' @ [NL]"
  have f: "commented_file = ?pre @ fence @ tag_python @ [] @ [NL, HASH] @ ?line @ [NL] @ ?post"
    by (simp add: commented_file_def fence_def tag_python_def u_def)
  have h1: "tag_python \<in> tagset" by (simp add: tagset_def)
  have h2: "\<forall>c\<in>set ([]::ustring). isspace c" by simp
  have h3: "NL \<notin> set ?line" by (simp add: u_def)
  have h4: "\<exists>c\<in>set ?line. \<not> isspace c" by (simp add: u_def isspace_def)
  have h5: "\<forall>q. suffix q ?pre \<longrightarrow> q \<noteq> [] \<longrightarrow>
        \<not> opens_comment (q @ fence @ tag_python @ [] @ [NL, HASH] @ ?line @ [NL] @ ?post)"
    by (intro allI impI no_backtick_no_opening[where p = ?pre]) (simp_all add: u_def)
  have h6: "\<forall>t. suffix t plain_file \<longrightarrow> \<not> opens_comment t"
  proof (intro allI impI)
    fix t assume t: "suffix t plain_file"
    show "\<not> opens_comment t"
    proof (cases "t = []")
      case True
      then show ?thesis using opens_comment_fence[of "[]"] by (auto simp: fence_def u_def)
    next
      case False
      then show ?thesis
        using no_backtick_no_opening[of plain_file t "[]"] t by (simp add: plain_file_def u_def)
    qed
  qed
  have s: "py_strip ?line = u ''Scatter plot''" by (simp add: py_strip_def u_def isspace_def)
  from description_of_text_first_comment
    [of tag_python "[]" ?line ?pre ?post plain_file]
  show ?thesis using h1 h2 h3 h4 h5 h6 unfolding f s by blast
qed

text \<open>
  Claim C1 as stated fails on a file with two recognised blocks of which only the
  second starts with a comment line: the first line of the first block is
  \<^verbatim>\<open>x <- 1\<close>, so the description that consults the first block only is the fallback,
  but the search goes on and returns the comment of the second block.
\<close>

theorem description_consults_later_block:
  "first_block two_blocks_file =
     Some (u ''x <- 1'' @ [NL] @ u ''```'' @ [NL] @ u ''```r'' @ [NL] @ u ''# second'' @ [NL] @
           u ''y <- 2'' @ [NL] @ u ''```'' @ [NL]) \<and>
   first_block_description two_blocks_file = fallback \<and>
   description_of_text two_blocks_file = Inr (u ''second'') \<and>
   u ''second'' \<noteq> fallback"
  by (simp add: two_blocks_file_def first_block_description_def first_line_def
        opening_line_rest_def eval_defs)

text \<open>
  Claim C10 (a first line that is the marker and white space only gives the
  fallback). In the pattern the white space after the marker may run over the line
  break, so for a block whose first line is the bare marker the group takes the next
  line: the description is a line of code, not the fallback.
\<close>

theorem description_bare_marker_takes_next_line:
  "description_of_text bare_marker_file = Inr (u ''x <- 1'')"
  by (simp add: bare_marker_file_def eval_defs)

section \<open>The code\<close>

lemma prefix_of_long_front:
  assumes "prefix w (xs @ ys)" "length w \<le> length xs"
  shows "prefix w xs"
proof -
  from assms(1) obtain zs where "xs @ ys = w @ zs" by (auto simp: prefix_def)
  then have "take (length w) (xs @ ys) = w" by simp
  moreover have "take (length w) (xs @ ys) = take (length w) xs" using assms(2) by simp
  ultimately have "w = take (length w) xs" by simp
  then show ?thesis by (metis take_is_prefix)
qed

lemma lazy_then_Lit:
  assumes "w \<noteq> []" "\<not> sublist w (b @ butlast w)"
  shows "\<exists>xs. concat (map (\<lambda>r. rmatch (Lit w) (r, G r)) (star_lazy AnyChar (b @ w @ post))) =
           (post, G (w @ post)) # xs"
  using assms(2)
proof (induction b)
  case Nil
  from assms(1) obtain c w' where w: "w = c # w'" by (cases w) auto
  show ?case unfolding w by simp
next
  case (Cons c b)
  have "\<not> prefix w (c # b @ w @ post)"
  proof
    assume p: "prefix w (c # b @ w @ post)"
    have "c # b @ w @ post = (c # b @ butlast w) @ (last w # post)"
      using assms(1) by simp
    with p have "prefix w ((c # b @ butlast w) @ (last w # post))" by simp
    moreover have "length w \<le> length (c # b @ butlast w)" by simp
    ultimately have "prefix w (c # b @ butlast w)" by (rule prefix_of_long_front)
    then have "sublist w ((c # b) @ butlast w)" by (auto intro: prefix_imp_sublist)
    with Cons.prems show False by simp
  qed
  moreover have "\<not> sublist w (b @ butlast w)"
    using Cons.prems by (auto simp: sublist_Cons_right)
  ultimately show ?case using Cons.IH by simp
qed

lemma rmatch_body:
  assumes "\<not> sublist (NL # fence) (b @ [NL, 96, 96])"
  shows "\<exists>xs. rmatch (Cat (Group (StarLazy AnyChar)) (Lit (NL # fence))) (b @ NL # fence @ post, g) =
           (post, Some b) # xs"
proof -
  let ?s = "b @ NL # fence @ post"
  have bl: "butlast (NL # fence) = [NL, 96, 96]" by (simp add: fence_def u_def)
  have "rmatch (Cat (Group (StarLazy AnyChar)) (Lit (NL # fence))) (?s, g) =
        concat (map (\<lambda>r. rmatch (Lit (NL # fence)) (r, Some (take (length ?s - length r) ?s)))
          (star_lazy AnyChar (b @ (NL # fence) @ post)))"
    by (simp add: comp_def)
  moreover from lazy_then_Lit[of "NL # fence" b "\<lambda>r. Some (take (length ?s - length r) ?s)" post]
  obtain xs where "concat (map (\<lambda>r. rmatch (Lit (NL # fence)) (r, Some (take (length ?s - length r) ?s)))
          (star_lazy AnyChar (b @ (NL # fence) @ post))) =
       (post, Some (take (length ?s - length ((NL # fence) @ post)) ?s)) # xs"
    using assms unfolding bl by auto
  ultimately show ?thesis by simp
qed

lemma greedy_fail_skip:
  assumes "\<forall>c\<in>set ws. in_class k c" "\<forall>c\<in>set ws. \<forall>q. f (c # q) = []"
  shows "concat (map f (star_greedy k (ws @ r))) = concat (map f (star_greedy k r))"
  using assms by (induction ws) auto

lemma rmatch_code_block:
  assumes tag: "tag \<in> tagset" and w1: "\<forall>c\<in>set w1. isspace c"
    and w2: "\<forall>c\<in>set w2. isspace c" "NL \<notin> set w2"
    and b: "b \<noteq> []" "\<not> isspace (hd b)"
    and cl: "\<not> sublist (NL # fence) (w2 @ b @ [NL, 96, 96])"
  shows "\<exists>xs. rmatch code_pattern (fence @ tag @ w1 @ NL # w2 @ b @ NL # fence @ post, None) =
           (post, Some (w2 @ b)) # xs"
proof -
  let ?R = "Cat (Group (StarLazy AnyChar)) (Lit (NL # fence))"
  let ?T = "b @ NL # fence @ post"
  define f where "f = (\<lambda>q. rmatch (Cat (Lit [NL]) ?R) (q, None))"
  from b obtain c t where c: "b = c # t" "\<not> isspace c" by (cases b) auto
  then have cNL: "c \<noteq> NL" by (auto simp: isspace_def)
  have fail: "\<And>d q. d \<noteq> NL \<Longrightarrow> f (d # q) = []" by (simp add: f_def)
  have "concat (map f (star_greedy Space (w2 @ ?T))) = concat (map f (star_greedy Space ?T))"
  proof (rule greedy_fail_skip)
    show "\<forall>c\<in>set w2. in_class Space c" using w2(1) by simp
    show "\<forall>c\<in>set w2. \<forall>q. f (c # q) = []"
      using w2(2) fail by (metis)
  qed
  also have "\<dots> = []" using c cNL fail by simp
  finally have e: "concat (map f (star_greedy Space (w2 @ ?T))) = []" .
  have "f (NL # w2 @ ?T) = rmatch ?R ((w2 @ b) @ NL # fence @ post, None)"
    by (simp add: f_def)
  with rmatch_body[of "w2 @ b" post None] cl
  obtain xs where xs: "f (NL # w2 @ ?T) = (post, Some (w2 @ b)) # xs" by auto
  have "star_greedy Space (NL # w2 @ ?T) = star_greedy Space (w2 @ ?T) @ [NL # w2 @ ?T]"
    by (simp add: isspace_def)
  then have 1: "concat (map f (star_greedy Space (NL # w2 @ ?T))) = (post, Some (w2 @ b)) # xs"
    using e xs by simp
  have "star_greedy Space (w1 @ NL # w2 @ ?T) =
      star_greedy Space (NL # w2 @ ?T) @ map (\<lambda>q. q @ NL # w2 @ ?T) (tl (suffixes w1))"
    using w1 by (intro star_greedy_append) simp
  then have "concat (map f (star_greedy Space (w1 @ NL # w2 @ ?T))) =
      concat (map f (star_greedy Space (NL # w2 @ ?T))) @
      concat (map f (map (\<lambda>q. q @ NL # w2 @ ?T) (tl (suffixes w1))))"
    by (simp only: map_append concat_append)
  with 1 have 2: "\<exists>ys. concat (map f (star_greedy Space (w1 @ NL # w2 @ ?T))) =
      (post, Some (w2 @ b)) # ys" by simp
  have "rmatch code_pattern (fence @ tag @ w1 @ NL # w2 @ ?T, None) =
      rmatch (Cat (Star Space) (Cat (Lit [NL]) ?R)) (w1 @ NL # w2 @ ?T, None)"
    unfolding code_pattern_def
    by (simp only: rmatch_Cat_Lit)
       (simp add: rmatch_tags[OF tag] del: rmatch.simps(1,4,5) add: rmatch.simps(3))
  also have "\<dots> = concat (map f (star_greedy Space (w1 @ NL # w2 @ ?T)))"
    unfolding f_def by (rule rmatch_Cat_Star)
  finally show ?thesis using 2 by simp
qed

lemma opens_comment_block: "opens_comment s \<Longrightarrow> opens_block s"
  unfolding opens_comment_def opens_block_def by auto

lemma code_match_opens_block:
  assumes "rmatch code_pattern (s, g) \<noteq> []"
  shows "opens_block s"
proof -
  from assms obtain x where "x \<in> set (rmatch code_pattern (s, g))"
    by (cases "rmatch code_pattern (s, g)") auto
  then obtain y1 y2 y3 y4 where
    y: "y1 \<in> set (rmatch (Lit fence) (s, g))" "y2 \<in> set (rmatch tags y1)"
       "y3 \<in> set (rmatch (Star Space) y2)" "y4 \<in> set (rmatch (Lit [NL]) y3)"
    unfolding code_pattern_def in_rmatch_Cat by blast
  obtain s1 g1 where y1: "y1 = (s1, g1)" by (cases y1)
  obtain s2 g2 where y2: "y2 = (s2, g2)" by (cases y2)
  obtain s3 g3 where y3: "y3 = (s3, g3)" by (cases y3)
  obtain s4 g4 where y4: "y4 = (s4, g4)" by (cases y4)
  from y(1) have 1: "s = fence @ s1" unfolding y1 in_rmatch_Lit by simp
  from y(2) obtain tag where 2: "tag \<in> tagset" "s1 = tag @ s2"
    unfolding y1 y2 in_rmatch_tags by blast
  from y(3) obtain ws where 3: "s2 = ws @ s3" "\<forall>c\<in>set ws. isspace c"
    unfolding y2 y3 in_rmatch_Star by auto
  from y(4) have 4: "s3 = [NL] @ s4" unfolding y3 y4 in_rmatch_Lit by simp
  have "s = fence @ tag @ ws @ [NL] @ s4"
    using 1 2 3 4 by simp
  with 2(1) 3(2) show ?thesis unfolding opens_block_def by blast
qed

lemma last_break_split:
  assumes "ws @ NL # v = w1 @ NL # w2" "NL \<notin> set w2"
  shows "suffix w2 v"
proof -
  from assms(1) have "(ws @ [NL]) @ v = (w1 @ [NL]) @ w2" by simp
  then obtain us where
    "(ws @ [NL] = (w1 @ [NL]) @ us \<and> us @ v = w2) \<or> ((ws @ [NL]) @ us = w1 @ [NL] \<and> v = us @ w2)"
    unfolding append_eq_append_conv2 by blast
  then show ?thesis
  proof
    assume a: "ws @ [NL] = (w1 @ [NL]) @ us \<and> us @ v = w2"
    have "us = []"
    proof (rule ccontr)
      assume "us \<noteq> []"
      with a have "last us = NL" by (metis last_appendR last_snoc)
      with \<open>us \<noteq> []\<close> have "NL \<in> set us" by (metis last_in_set)
      with a assms(2) show False by auto
    qed
    with a show ?thesis by simp
  next
    assume "(ws @ [NL]) @ us = w1 @ [NL] \<and> v = us @ w2"
    then show ?thesis by (auto simp: suffix_def)
  qed
qed

lemma code_empty:
  assumes "\<forall>t. suffix t content \<longrightarrow> \<not> opens_block t"
  shows "code_of_text content = Inr []"
proof -
  have "search code_pattern content = None"
    unfolding search_None_iff using assms code_match_opens_block by blast
  then show ?thesis by (simp add: code_of_text_def)
qed

lemma closing_fence_first:
  assumes "96 \<notin> set body"
  shows "\<not> sublist (NL # fence) (body @ [NL, 96, 96])"
proof
  assume "sublist (NL # fence) (body @ [NL, 96, 96])"
  then obtain ps ss where e: "body @ [NL, 96, 96] = ps @ (NL # fence) @ ss"
    by (auto simp: sublist_def)
  have "filter (\<lambda>c. c = 96) body = []" using assms by (auto simp: filter_empty_conv)
  then have "length (filter (\<lambda>c. c = 96) (body @ [NL, 96, 96])) = 2" by simp
  moreover have "length (filter (\<lambda>c. c = 96) (ps @ (NL # fence) @ ss)) \<ge> 3"
    by (simp add: fence_def u_def)
  ultimately show False using e by simp
qed

lemma search_code_block:
  assumes tag: "tag \<in> tagset" and ws: "\<forall>c\<in>set ws. isspace c"
    and body: "\<exists>c\<in>set body. \<not> isspace c"
    and cl: "\<not> sublist (NL # fence) (body @ [NL, 96, 96])"
    and first: "\<forall>q. suffix q pre \<longrightarrow> q \<noteq> [] \<longrightarrow>
                  \<not> opens_block (q @ fence @ tag @ ws @ [NL] @ body @ [NL] @ fence @ post)"
  shows "\<exists>g. search code_pattern (pre @ fence @ tag @ ws @ [NL] @ body @ [NL] @ fence @ post) =
           Some (Some g) \<and> py_strip g = py_strip body"
proof -
  let ?block = "fence @ tag @ ws @ [NL] @ body @ [NL] @ fence @ post"
  define v where "v = takeWhile isspace body"
  define b where "b = dropWhile isspace body"
  have vb: "body = v @ b" by (simp add: v_def b_def)
  have b: "b \<noteq> []" "\<not> isspace (hd b)"
    using body by (auto simp: b_def hd_dropWhile)
  have v: "\<forall>c\<in>set v. isspace c" by (auto simp: v_def dest: set_takeWhileD)
  have "NL \<in> set (ws @ NL # v)" by simp
  from split_list_last[OF this] obtain w1 w2 where w: "ws @ NL # v = w1 @ NL # w2" "NL \<notin> set w2"
    by blast
  have "set w1 \<union> set w2 \<subseteq> set (w1 @ NL # w2)" by auto
  then have "set w1 \<union> set w2 \<subseteq> set (ws @ NL # v)" by (simp only: w(1))
  moreover have "isspace NL" by (simp add: isspace_def)
  ultimately have sp: "\<forall>c\<in>set w1. isspace c" "\<forall>c\<in>set w2. isspace c"
    using ws v by auto
  from last_break_split[OF w] obtain us where us: "v = us @ w2" by (auto simp: suffix_def)
  have cl': "\<not> sublist (NL # fence) (w2 @ b @ [NL, 96, 96])"
  proof
    assume "sublist (NL # fence) (w2 @ b @ [NL, 96, 96])"
    then obtain ps ss where "w2 @ b @ [NL, 96, 96] = ps @ (NL # fence) @ ss"
      by (auto simp: sublist_def)
    then have "body @ [NL, 96, 96] = (us @ ps) @ (NL # fence) @ ss"
      by (simp add: vb us)
    then have "sublist (NL # fence) (body @ [NL, 96, 96])"
      unfolding sublist_def by blast
    with cl show False by simp
  qed
  have "?block = fence @ tag @ (ws @ NL # v) @ b @ NL # fence @ post"
    by (simp add: vb)
  then have blk: "?block = fence @ tag @ w1 @ NL # w2 @ b @ NL # fence @ post"
    by (simp only: w(1)) simp
  from rmatch_code_block[OF tag sp(1) sp(2) w(2) b cl', of post] obtain xs where
    "rmatch code_pattern (fence @ tag @ w1 @ NL # w2 @ b @ NL # fence @ post, None) =
       (post, Some (w2 @ b)) # xs" by blast
  then have m: "rmatch code_pattern (?block, None) = (post, Some (w2 @ b)) # xs"
    by (simp only: blk)
  have "search code_pattern (pre @ ?block) = search code_pattern ?block"
    using first code_match_opens_block by (intro search_skip) blast
  also have "\<dots> = Some (Some (w2 @ b))"
  proof -
    obtain c cs where e: "?block = c # cs" by (cases ?block) (auto simp: fence_def u_def)
    show ?thesis using m unfolding e by simp
  qed
  finally have "search code_pattern (pre @ ?block) = Some (Some (w2 @ b))" .
  moreover have "py_strip (w2 @ b) = py_strip body"
  proof -
    have "dropWhile isspace (w2 @ b) = dropWhile isspace b"
      using sp(2) by (simp add: dropWhile_append2)
    moreover have "dropWhile isspace body = dropWhile isspace b"
      unfolding vb using v by (simp add: dropWhile_append2)
    ultimately show ?thesis by (simp add: py_strip_def)
  qed
  ultimately show ?thesis by blast
qed

lemma code_of_block:
  assumes "tag \<in> tagset" "\<forall>c\<in>set ws. isspace c" "\<exists>c\<in>set body. \<not> isspace c"
    "\<not> sublist (NL # fence) (body @ [NL, 96, 96])"
    "\<forall>q. suffix q pre \<longrightarrow> q \<noteq> [] \<longrightarrow>
        \<not> opens_block (q @ fence @ tag @ ws @ [NL] @ body @ [NL] @ fence @ post)"
  shows "code_of_text (pre @ fence @ tag @ ws @ [NL] @ body @ [NL] @ fence @ post) =
           Inr (py_strip body)"
  using search_code_block[OF assms] by (auto simp: code_of_text_def)

lemma opens_block_fence: "opens_block s \<Longrightarrow> prefix fence s"
  unfolding opens_block_def by auto

lemma no_backtick_no_block:
  assumes "96 \<notin> set p" "suffix q p" "q \<noteq> []"
  shows "\<not> opens_block (q @ s)"
proof
  assume "opens_block (q @ s)"
  then have "prefix fence (q @ s)" by (rule opens_block_fence)
  moreover obtain c q' where q: "q = c # q'" using assms(3) by (cases q) auto
  ultimately have "c = 96" by (simp add: fence_def u_def)
  moreover have "c \<in> set p" using assms(2) q by (auto simp: suffix_def)
  ultimately show False using assms(1) by simp
qed

text \<open>
  Claim C2 (the code of the first recognised block, the empty string for an empty
  block). The pattern needs a line break before the body and another one before the
  closing fence. In a file that opens with an empty block, followed by a line of text
  and a second block, the lazy group therefore runs on to the next line that starts
  with a fence: the result is the closing fence of the first block and the text after
  it, not the empty string.
\<close>

theorem extract_code_empty_block_runs_on:
  "code_of_text empty_block_file = Inr (u ''```'' @ [NL] @ u ''text'')"
  by (simp add: empty_block_file_def eval_defs)


text \<open>
  What does hold of the code. If the first opening line of a recognised block in the
  text is followed by a body with a character that is not white space, and the first
  line after it that starts with a fence is the closing fence, the result is that body
  with the white space around it stripped. If the text has no opening line of a
  recognised block, the result is the empty string.
\<close>

theorem code_of_text_first_block:
  "(tag \<in> tagset \<and> (\<forall>c\<in>set ws. isspace c) \<and> (\<exists>c\<in>set body. \<not> isspace c) \<and>
    \<not> sublist (NL # fence) (body @ [NL, 96, 96]) \<and>
    (\<forall>q. suffix q pre \<longrightarrow> q \<noteq> [] \<longrightarrow>
        \<not> opens_block (q @ fence @ tag @ ws @ [NL] @ body @ [NL] @ fence @ post)) \<longrightarrow>
    code_of_text (pre @ fence @ tag @ ws @ [NL] @ body @ [NL] @ fence @ post) =
      Inr (py_strip body)) \<and>
   ((\<forall>t. suffix t content \<longrightarrow> \<not> opens_block t) \<longrightarrow> code_of_text content = Inr [])"
  using code_of_block code_empty by blast

theorem code_of_text_first_block_witness:
  "code_of_text commented_file = Inr (u ''#  Scatter plot '' @ [NL] @ u ''import x'') \<and>
   code_of_text plain_file = Inr []"
proof -
  let ?pre = "u ''Scatter'' @ [NL]"
  let ?body = "u ''#  Scatter plot '' @ [NL] @ u ''import x''"
  have f: "commented_file = ?pre @ fence @ tag_python @ [] @ [NL] @ ?body @ [NL] @ fence @ [NL]"
    by (simp add: commented_file_def fence_def tag_python_def u_def)
  have h1: "tag_python \<in> tagset" by (simp add: tagset_def)
  have h2: "\<forall>c\<in>set ([]::ustring). isspace c" by simp
  have h3: "\<exists>c\<in>set ?body. \<not> isspace c" by (simp add: u_def isspace_def)
  have h4: "\<not> sublist (NL # fence) (?body @ [NL, 96, 96])"
    by (rule closing_fence_first) (simp add: u_def)
  have h5: "\<forall>q. suffix q ?pre \<longrightarrow> q \<noteq> [] \<longrightarrow>
        \<not> opens_block (q @ fence @ tag_python @ [] @ [NL] @ ?body @ [NL] @ fence @ [NL])"
    by (intro allI impI no_backtick_no_block[where p = ?pre]) (simp_all add: u_def)
  have h6: "\<forall>t. suffix t plain_file \<longrightarrow> \<not> opens_block t"
  proof (intro allI impI)
    fix t assume t: "suffix t plain_file"
    show "\<not> opens_block t"
    proof (cases "t = []")
      case True
      then show ?thesis using opens_block_fence[of "[]"] by (auto simp: fence_def u_def)
    next
      case False
      then show ?thesis
        using no_backtick_no_block[of plain_file t "[]"] t by (simp add: plain_file_def u_def)
    qed
  qed
  have s: "py_strip ?body = u ''#  Scatter plot '' @ [NL] @ u ''import x''"
    by (simp add: py_strip_def u_def isspace_def)
  from code_of_text_first_block
    [of tag_python "[]" ?body ?pre "[NL]" plain_file]
  show ?thesis using h1 h2 h3 h4 h5 h6 unfolding f s by blast
qed

section \<open>The spelling of the tag\<close>

lemma rmatch_unknown_tag:
  assumes "\<forall>tag\<in>tagset. \<not> prefix tag x"
  shows "rmatch (Cat (Lit fence) (Cat tags r)) (fence @ x, g) = []"
proof -
  have "rmatch tags (x, g) = []"
    using assms by (simp add: tags_def tagset_def)
  then show ?thesis by simp
qed

lemma rmatch_no_fence:
  "\<not> prefix fence s \<Longrightarrow> rmatch (Cat (Lit fence) r) (s, g) = []"
  by simp

lemma search_no_backtick:
  assumes "96 \<notin> set x"
  shows "search (Cat (Lit fence) r) (x @ s) = search (Cat (Lit fence) r) s"
proof (rule search_skip, intro allI impI)
  fix q assume q: "suffix q x" "q \<noteq> []"
  then obtain c q' where c: "q = c # q'" by (cases q) auto
  with q(1) have "c \<in> set x" by (auto simp: suffix_def)
  with assms have "c \<noteq> 96" by auto
  then have "\<not> prefix fence (q @ s)" unfolding c by (simp add: fence_def u_def)
  then show "rmatch (Cat (Lit fence) r) (q @ s, None) = []" by (rule rmatch_no_fence)
qed

lemma search_step: "rmatch r (c # cs, None) = [] \<Longrightarrow> search r (c # cs) = search r cs"
  by simp

lemma search_unknown_tag:
  assumes x: "\<forall>tag\<in>tagset. \<not> prefix tag (x @ fence @ [NL])" "96 \<notin> set x" "x \<noteq> []"
    and e: "search (Cat (Lit fence) (Cat tags r)) (fence @ [NL]) = None"
  shows "search (Cat (Lit fence) (Cat tags r)) (fence @ x @ fence @ [NL]) = None"
proof -
  define p where "p = Cat (Lit fence) (Cat tags r)"
  define s where "s = x @ fence @ [NL]"
  from x obtain c x' where c: "x = c # x'" "c \<noteq> 96" by (cases x) auto
  have f: "fence = [96, 96, 96]" by (simp add: fence_def u_def)
  have s: "s = c # x' @ fence @ [NL]" by (simp add: s_def c)
  have "rmatch p (fence @ s, None) = []"
    unfolding p_def s_def using x(1) by (rule rmatch_unknown_tag)
  then have 0: "rmatch p (96 # 96 # 96 # s, None) = []" by (simp add: f)
  have 1: "rmatch p (96 # 96 # s, None) = []"
    unfolding p_def by (rule rmatch_no_fence) (simp add: f s c)
  have 2: "rmatch p (96 # s, None) = []"
    unfolding p_def by (rule rmatch_no_fence) (simp add: f s c)
  have "search p (fence @ s) = search p (96 # 96 # 96 # s)" by (simp add: f)
  also have "\<dots> = search p (96 # 96 # s)" using 0 by (rule search_step)
  also have "\<dots> = search p (96 # s)" using 1 by (rule search_step)
  also have "\<dots> = search p s" using 2 by (rule search_step)
  also have "\<dots> = search p (fence @ [NL])"
    unfolding p_def s_def using x(2) by (rule search_no_backtick)
  finally show ?thesis using e by (simp add: p_def s_def)
qed

lemma search_desc_unknown_tag:
  assumes "\<forall>tag\<in>tagset. \<not> prefix tag (x @ fence @ [NL])" "96 \<notin> set x" "x \<noteq> []"
  shows "search desc_pattern (fence @ x @ fence @ [NL]) = None"
  unfolding desc_pattern_def
  by (rule search_unknown_tag[OF assms]) (simp add: tags_def fence_def tag_r_def tag_R_def tag_python_def tag_Python_def u_def)

lemma search_code_unknown_tag:
  assumes "\<forall>tag\<in>tagset. \<not> prefix tag (x @ fence @ [NL])" "96 \<notin> set x" "x \<noteq> []"
  shows "search code_pattern (fence @ x @ fence @ [NL]) = None"
  unfolding code_pattern_def
  by (rule search_unknown_tag[OF assms]) (simp add: tags_def fence_def tag_r_def tag_R_def tag_python_def tag_Python_def u_def)

lemma spelling_length: "spelling_of t w \<Longrightarrow> length t = length w"
  unfolding spelling_of_def by (rule list_all2_lengthD)

lemma spelling_letters:
  assumes "spelling_of t w" "c \<in> set t"
  shows "\<exists>d\<in>set w. c = d \<or> c + 32 = d"
proof -
  from assms(2) obtain i where i: "i < length t" "t ! i = c" by (auto simp: in_set_conv_nth)
  with assms(1) have "c = w ! i \<or> c + 32 = w ! i" "i < length w"
    unfolding spelling_of_def by (auto dest: list_all2_nthD list_all2_lengthD)
  then show ?thesis by (metis nth_mem)
qed

lemma spelling_r: "spelling_of t tag_r \<Longrightarrow> t \<in> tagset"
  unfolding spelling_of_def tag_r_def tag_R_def tagset_def u_def
  by (auto simp: list_all2_Cons2)

lemma spelling_no_backtick:
  assumes "spelling_of t tag_r \<or> spelling_of t tag_python"
  shows "96 \<notin> set t"
proof
  assume "96 \<in> set t"
  with assms spelling_letters[of t _ 96]
  have "(\<exists>d\<in>set tag_r. 96 = d \<or> 96 + 32 = d) \<or> (\<exists>d\<in>set tag_python. 96 = d \<or> 96 + 32 = d)"
    by blast
  then show False by (simp add: tag_r_def tag_python_def u_def)
qed

lemma prefix_same_length:
  assumes "prefix xs (ys @ zs)" "length xs = length ys"
  shows "xs = ys"
  using assms by (auto simp: prefix_def append_eq_append_conv)

lemma spelling_unknown:
  assumes sp: "spelling_of t tag_r \<or> spelling_of t tag_python"
    and t: "t \<notin> tagset" and tag: "tag \<in> tagset"
  shows "\<not> prefix tag (t @ s)"
proof
  assume p: "prefix tag (t @ s)"
  from sp t spelling_r have py: "spelling_of t tag_python" by blast
  then have len: "length t = 6" using spelling_length by (fastforce simp: tag_python_def u_def)
  from py obtain c t' where c: "t = c # t'" "c = 112 \<or> c + 32 = 112"
    unfolding spelling_of_def tag_python_def u_def by (auto simp: list_all2_Cons2)
  from tag consider "tag = tag_r" | "tag = tag_R" | "tag = tag_python" | "tag = tag_Python"
    unfolding tagset_def by blast
  then show False
  proof cases
    case 1
    with p c show ?thesis by (auto simp: tag_r_def u_def)
  next
    case 2
    with p c show ?thesis by (auto simp: tag_R_def u_def)
  next
    case 3
    with p len have "tag_python = t"
      by (intro prefix_same_length[of _ t s]) (simp_all add: tag_python_def u_def)
    with t show ?thesis by (simp add: tagset_def)
  next
    case 4
    with p len have "tag_Python = t"
      by (intro prefix_same_length[of _ t s]) (simp_all add: tag_Python_def u_def)
    with t show ?thesis by (simp add: tagset_def)
  qed
qed

lemma block_known_tag:
  assumes tag: "t \<in> tagset"
    and d: "NL \<notin> set d" "\<exists>c\<in>set d. \<not> isspace c" "96 \<notin> set d" and b: "96 \<notin> set b"
  shows "description_of_text (fence @ t @ [NL, HASH] @ d @ [NL] @ b @ [NL] @ fence @ [NL]) =
           Inr (py_strip d) \<and>
         code_of_text (fence @ t @ [NL, HASH] @ d @ [NL] @ b @ [NL] @ fence @ [NL]) =
           Inr (py_strip ([HASH] @ d @ [NL] @ b))"
proof
  have "description_of_text ([] @ fence @ t @ [] @ [NL, HASH] @ d @ [NL] @ (b @ [NL] @ fence @ [NL])) =
          Inr (py_strip d)"
    using tag d(1,2) by (intro description_comment) simp_all
  then show "description_of_text (fence @ t @ [NL, HASH] @ d @ [NL] @ b @ [NL] @ fence @ [NL]) =
           Inr (py_strip d)" by simp
  have "96 \<notin> set ([HASH] @ d @ [NL] @ b)" using d(3) b by simp
  then have cl: "\<not> sublist (NL # fence) (([HASH] @ d @ [NL] @ b) @ [NL, 96, 96])"
    by (rule closing_fence_first)
  have "\<not> isspace HASH" by (simp add: isspace_def)
  then have ns: "\<exists>c\<in>set ([HASH] @ d @ [NL] @ b). \<not> isspace c" by simp
  have "code_of_text ([] @ fence @ t @ [] @ [NL] @ ([HASH] @ d @ [NL] @ b) @ [NL] @ fence @ [NL]) =
          Inr (py_strip ([HASH] @ d @ [NL] @ b))"
    using tag ns cl by (intro code_of_block) simp_all
  then show "code_of_text (fence @ t @ [NL, HASH] @ d @ [NL] @ b @ [NL] @ fence @ [NL]) =
           Inr (py_strip ([HASH] @ d @ [NL] @ b))" by simp
qed

lemma block_unknown_tag:
  assumes sp: "spelling_of t tag_r \<or> spelling_of t tag_python" and t: "t \<notin> tagset"
    and d: "96 \<notin> set d" and b: "96 \<notin> set b"
  shows "description_of_text (fence @ t @ [NL, HASH] @ d @ [NL] @ b @ [NL] @ fence @ [NL]) =
           Inr fallback \<and>
         code_of_text (fence @ t @ [NL, HASH] @ d @ [NL] @ b @ [NL] @ fence @ [NL]) = Inr []"
proof -
  define x where "x = t @ [NL, HASH] @ d @ [NL] @ b @ [NL]"
  have 1: "\<forall>tag\<in>tagset. \<not> prefix tag (x @ fence @ [NL])"
    using spelling_unknown[OF sp t] by (simp add: x_def)
  have 2: "96 \<notin> set x" using spelling_no_backtick[OF sp] d b by (simp add: x_def)
  have 3: "x \<noteq> []" by (simp add: x_def)
  have e: "fence @ t @ [NL, HASH] @ d @ [NL] @ b @ [NL] @ fence @ [NL] = fence @ x @ fence @ [NL]"
    by (simp add: x_def)
  show ?thesis
    unfolding e description_of_text_def code_of_text_def
      search_desc_unknown_tag[OF 1 2 3] search_code_unknown_tag[OF 1 2 3]
    by simp
qed

text \<open>
  Claim C3, as the code has it. The matching of the tag is case sensitive: of the
  spellings of \<^verbatim>\<open>r\<close> and \<^verbatim>\<open>python\<close> in upper and lower case letters, exactly \<^verbatim>\<open>r\<close>, \<^verbatim>\<open>R\<close>,
  \<^verbatim>\<open>python\<close> and \<^verbatim>\<open>Python\<close> open a block that the two extractors treat as matching. For
  a file that is one block with a comment line \<open>d\<close> and further lines \<open>b\<close> (neither with
  a backtick), opened with the spelling \<open>t\<close>: with one of the four tags the description
  is the comment and the code is the body; with any other spelling they are the
  fallback string and the empty string.
\<close>

theorem tag_spelling_recognised:
  assumes "spelling_of t tag_r \<or> spelling_of t tag_python"
    and "NL \<notin> set d" "\<exists>c\<in>set d. \<not> isspace c" "96 \<notin> set d" "96 \<notin> set b"
  shows "description_of_text (fence @ t @ [NL, HASH] @ d @ [NL] @ b @ [NL] @ fence @ [NL]) =
           (if t \<in> tagset then Inr (py_strip d) else Inr fallback) \<and>
         code_of_text (fence @ t @ [NL, HASH] @ d @ [NL] @ b @ [NL] @ fence @ [NL]) =
           (if t \<in> tagset then Inr (py_strip ([HASH] @ d @ [NL] @ b)) else Inr [])"
  using block_known_tag[of t d b] block_unknown_tag[of t d b] assms by auto

theorem tag_spelling_recognised_witness:
  "description_of_text (u ''```pYthon'' @ [NL] @ u ''# plot'' @ [NL] @ u ''x = 1'' @ [NL] @
      u ''```'' @ [NL]) = Inr fallback \<and>
   code_of_text (u ''```pYthon'' @ [NL] @ u ''# plot'' @ [NL] @ u ''x = 1'' @ [NL] @
      u ''```'' @ [NL]) = Inr [] \<and>
   description_of_text (u ''```Python'' @ [NL] @ u ''# plot'' @ [NL] @ u ''x = 1'' @ [NL] @
      u ''```'' @ [NL]) = Inr (u ''plot'') \<and>
   code_of_text (u ''```Python'' @ [NL] @ u ''# plot'' @ [NL] @ u ''x = 1'' @ [NL] @
      u ''```'' @ [NL]) = Inr (u ''# plot'' @ [NL] @ u ''x = 1'')"
proof -
  let ?d = "u '' plot''" and ?b = "u ''x = 1''"
  have h1: "spelling_of (u ''pYthon'') tag_r \<or> spelling_of (u ''pYthon'') tag_python"
    by (simp add: spelling_of_def tag_python_def u_def)
  have h1': "spelling_of tag_Python tag_r \<or> spelling_of tag_Python tag_python"
    by (simp add: spelling_of_def tag_python_def tag_Python_def u_def)
  have h2: "NL \<notin> set ?d" by (simp add: u_def)
  have h3: "\<exists>c\<in>set ?d. \<not> isspace c" by (simp add: u_def isspace_def)
  have h4: "96 \<notin> set ?d" by (simp add: u_def)
  have h5: "96 \<notin> set ?b" by (simp add: u_def)
  have n: "u ''pYthon'' \<notin> tagset"
    by (simp add: tagset_def tag_r_def tag_R_def tag_python_def tag_Python_def u_def)
  have y: "tag_Python \<in> tagset" by (simp add: tagset_def)
  have e1: "u ''```pYthon'' @ [NL] @ u ''# plot'' @ [NL] @ u ''x = 1'' @ [NL] @ u ''```'' @ [NL] =
        fence @ u ''pYthon'' @ [NL, HASH] @ ?d @ [NL] @ ?b @ [NL] @ fence @ [NL]"
    by (simp add: fence_def u_def)
  have e2: "u ''```Python'' @ [NL] @ u ''# plot'' @ [NL] @ u ''x = 1'' @ [NL] @ u ''```'' @ [NL] =
        fence @ tag_Python @ [NL, HASH] @ ?d @ [NL] @ ?b @ [NL] @ fence @ [NL]"
    by (simp add: fence_def tag_Python_def u_def)
  have s1: "py_strip ?d = u ''plot''" by (simp add: py_strip_def u_def isspace_def)
  have s2: "py_strip ([HASH] @ ?d @ [NL] @ ?b) = u ''# plot'' @ [NL] @ u ''x = 1''"
    by (simp add: py_strip_def u_def isspace_def)
  from tag_spelling_recognised[OF h1 h2 h3 h4 h5] tag_spelling_recognised[OF h1' h2 h3 h4 h5]
  show ?thesis unfolding e1 e2 using n y s1 s2 by simp
qed

text \<open>
  Claim C3 as stated fails for the spelling in capitals: the file is one block opened
  with \<^verbatim>\<open>PYTHON\<close>, and both extractors return their defaults for a file without a
  matching block.
\<close>

theorem capitals_tag_not_recognised:
  "spelling_of (u ''PYTHON'') tag_python \<and>
   capitals_file = fence @ u ''PYTHON'' @ [NL, HASH] @ u '' plot'' @ [NL] @ u ''x = 1'' @ [NL] @
     fence @ [NL] \<and>
   description_of_text capitals_file = Inr fallback \<and>
   code_of_text capitals_file = Inr []"
  by (simp add: capitals_file_def spelling_of_def eval_defs)

section \<open>The language of a category\<close>

lemma py_in_sublist: "py_in pat s \<longleftrightarrow> sublist pat s"
  by (induction s) (auto simp: sublist_Cons_right)

lemma py_lower_append: "py_lower (a @ b) = py_lower a @ py_lower b"
  by (simp add: py_lower_def)

lemma detect_language_spec:
  "detect_language name =
     (if sublist (u ''r code'') (py_lower name) \<or> sublist (u ''r-code'') (py_lower name)
        then (u ''R'', u ''r'')
      else if sublist (u ''python'') (py_lower name) then (u ''Python'', u ''python'')
      else if sublist (u ''javascript'') (py_lower name) \<or> sublist (u ''js'') (py_lower name)
        then (u ''JavaScript'', u ''javascript'')
      else (u ''Code'', u ''plaintext''))"
  by (simp add: detect_language_def Let_def py_in_sublist)

lemma detect_language_r_variant:
  assumes "py_lower w = u ''r code'' \<or> py_lower w = u ''r-code''"
  shows "detect_language (pre @ w @ post) = (u ''R'', u ''r'')"
proof -
  have "sublist (py_lower w) (py_lower (pre @ w @ post))"
    by (simp add: py_lower_append)
  with assms show ?thesis unfolding detect_language_spec by auto
qed

lemmas lang_defs = detect_language_def Let_def py_lower_def lower_cp_def u_def

text \<open>
  Claim C6. \<open>detect_language\<close> is a total function of the category name, decided on the
  lower-cased name by the substring rules in their order; so a name that holds
  \<^verbatim>\<open>r code\<close> or \<^verbatim>\<open>r-code\<close> in any mix of upper and lower case gives \<^verbatim>\<open>R\<close>, and the three
  names of the specification give the results stated there.
\<close>

theorem detect_language_rules:
  "detect_language name =
     (if sublist (u ''r code'') (py_lower name) \<or> sublist (u ''r-code'') (py_lower name)
        then (u ''R'', u ''r'')
      else if sublist (u ''python'') (py_lower name) then (u ''Python'', u ''python'')
      else if sublist (u ''javascript'') (py_lower name) \<or> sublist (u ''js'') (py_lower name)
        then (u ''JavaScript'', u ''javascript'')
      else (u ''Code'', u ''plaintext'')) \<and>
   (py_lower w = u ''r code'' \<or> py_lower w = u ''r-code'' \<longrightarrow>
      detect_language (pre @ w @ post) = (u ''R'', u ''r'')) \<and>
   detect_language (u ''R code'') = (u ''R'', u ''r'') \<and>
   detect_language (u ''Python code'') = (u ''Python'', u ''python'') \<and>
   detect_language (u ''Foo'') = (u ''Code'', u ''plaintext'')"
proof (intro conjI)
  show "detect_language (u ''R code'') = (u ''R'', u ''r'')" by (simp add: lang_defs)
  show "detect_language (u ''Python code'') = (u ''Python'', u ''python'')" by (simp add: lang_defs)
  show "detect_language (u ''Foo'') = (u ''Code'', u ''plaintext'')" by (simp add: lang_defs)
qed (use detect_language_spec detect_language_r_variant in blast)+

theorem detect_language_rules_witness:
  "detect_language (u ''My R-CODE dir'') = (u ''R'', u ''r'') \<and>
   detect_language (u ''Python and JS'') = (u ''Python'', u ''python'') \<and>
   detect_language (u ''NodeJS'') = (u ''JavaScript'', u ''javascript'')"
proof -
  have h: "py_lower (u ''R-CODE'') = u ''r code'' \<or> py_lower (u ''R-CODE'') = u ''r-code''"
    by (simp add: py_lower_def lower_cp_def u_def)
  have e: "u ''My R-CODE dir'' = u ''My '' @ u ''R-CODE'' @ u '' dir''" by (simp add: u_def)
  have 1: "detect_language (u ''My R-CODE dir'') = (u ''R'', u ''r'')"
    using detect_language_rules[of "u ''My R-CODE dir''" "u ''R-CODE''" "u ''My ''" "u '' dir''"] h
    unfolding e by blast
  have p: "py_lower (u ''Python and JS'') = u ''python and js''"
    by (simp add: py_lower_def lower_cp_def u_def)
  have n: "py_lower (u ''NodeJS'') = u ''nodejs''"
    by (simp add: py_lower_def lower_cp_def u_def)
  have s: "\<not> sublist (u ''r code'') (u ''python and js'')" "\<not> sublist (u ''r-code'') (u ''python and js'')"
    "sublist (u ''python'') (u ''python and js'')"
    "\<not> sublist (u ''r code'') (u ''nodejs'')" "\<not> sublist (u ''r-code'') (u ''nodejs'')"
    "\<not> sublist (u ''python'') (u ''nodejs'')" "\<not> sublist (u ''javascript'') (u ''nodejs'')"
    "sublist (u ''js'') (u ''nodejs'')"
    by (simp_all add: u_def sublist_Cons_right)
  have 2: "detect_language (u ''Python and JS'') = (u ''Python'', u ''python'')"
    using detect_language_rules[of "u ''Python and JS''" "[]" "[]" "[]"] s unfolding p by simp
  have 3: "detect_language (u ''NodeJS'') = (u ''JavaScript'', u ''javascript'')"
    using detect_language_rules[of "u ''NodeJS''" "[]" "[]" "[]"] s unfolding n by simp
  from 1 2 3 show ?thesis by simp
qed

section \<open>Files that cannot be read\<close>

lemmas scan_defs =
  scan_directory_def glob_md_def py_stem_def extract_description_from_md_def
  extract_code_from_md_def warn_unreadable_def encodable_def Let_def

text \<open>
  What does hold of a file that cannot be read. When reading the documentation file
  raises and the name of the file can be encoded for the standard output,
  \<open>extract_description_from_md\<close> prints one warning and returns the fallback string,
  \<open>extract_code_from_md\<close> prints one warning and returns the empty string; neither
  raises, and the loop of the scan goes on: the two warnings come before the lines of
  the files after it, and the file gets its item, with the two defaults, before the
  items of the files after it.
\<close>

theorem unreadable_file_defaults:
  assumes "read_text fs dir_name md_file = Inl e" "encodable md_file"
  shows "extract_description_from_md fs dir_name md_file =
           ([WarnUnreadable dir_name md_file e], Inr fallback) \<and>
         extract_code_from_md fs dir_name md_file =
           ([WarnUnreadable dir_name md_file e], Inr []) \<and>
         (path_exists fs dir_name (py_stem md_file @ u ''.png'') \<longrightarrow>
          fst (scan_loop fs dir_name (md_file # rest)) =
            [WarnUnreadable dir_name md_file e, WarnUnreadable dir_name md_file e] @
              fst (scan_loop fs dir_name rest) \<and>
          snd (scan_loop fs dir_name (md_file # rest)) =
            map_sum (\<lambda>x. x)
              (\<lambda>items.
                 \<lparr>title = py_stem md_file, description = fallback,
                  image_path = u ''../img/'' @ dir_name @ u ''/'' @ py_stem md_file @ u ''.png'',
                  code = []\<rparr> # items)
              (snd (scan_loop fs dir_name rest)))"
  using assms
  by (simp add: extract_description_from_md_def extract_code_from_md_def warn_unreadable_def
        Let_def split: prod.splits sum.splits)

theorem unreadable_file_defaults_witness:
  "extract_description_from_md unreadable_fs gallery_dir (u ''a.md'') =
     ([WarnUnreadable gallery_dir (u ''a.md'') PermissionError], Inr fallback) \<and>
   extract_code_from_md unreadable_fs gallery_dir (u ''a.md'') =
     ([WarnUnreadable gallery_dir (u ''a.md'') PermissionError], Inr []) \<and>
   map_sum (\<lambda>x. x) (map title)
       (snd (scan_loop unreadable_fs gallery_dir [u ''a.md'', u ''b.md''])) =
     Inr [u ''a'', u ''b''] \<and>
   map_sum (\<lambda>x. x) (map description)
       (snd (scan_loop unreadable_fs gallery_dir [u ''a.md'', u ''b.md''])) =
     Inr [fallback, u ''Scatter plot''] \<and>
   fst (scan_loop unreadable_fs gallery_dir [u ''a.md'', u ''b.md'']) =
     [WarnUnreadable gallery_dir (u ''a.md'') PermissionError,
      WarnUnreadable gallery_dir (u ''a.md'') PermissionError] \<and>
   scan_directory unreadable_fs gallery_dir =
     scan_loop unreadable_fs gallery_dir [u ''a.md'', u ''b.md'']"
proof -
  have h: "read_text unreadable_fs gallery_dir (u ''a.md'') = Inl PermissionError"
    by (simp add: unreadable_fs_def u_def)
  have n: "encodable (u ''a.md'')" by (simp add: encodable_def u_def)
  have p: "path_exists unreadable_fs gallery_dir (py_stem (u ''a.md'') @ u ''.png'')"
    by (simp add: unreadable_fs_def py_stem_def u_def)
  have st: "py_stem (u ''a.md'') = u ''a''" by (simp add: py_stem_def u_def)
  have r: "scan_loop unreadable_fs gallery_dir [u ''b.md''] =
      ([], Inr [\<lparr>title = u ''b'', description = u ''Scatter plot'',
                image_path = u ''../img/R code/b.png'', code = u ''#  Scatter plot '' @ [NL] @ u ''import x''\<rparr>])"
    by (simp add: unreadable_fs_def gallery_dir_def commented_file_def scan_defs eval_defs)
  have d: "scan_directory unreadable_fs gallery_dir =
     scan_loop unreadable_fs gallery_dir [u ''a.md'', u ''b.md'']"
    by (simp add: scan_directory_def unreadable_fs_def glob_md_def suffix_def u_def)
  note t = unreadable_file_defaults[OF h n, of "[u ''b.md'']"]
  from t p have l:
    "fst (scan_loop unreadable_fs gallery_dir [u ''a.md'', u ''b.md'']) =
       [WarnUnreadable gallery_dir (u ''a.md'') PermissionError,
        WarnUnreadable gallery_dir (u ''a.md'') PermissionError] @
         fst (scan_loop unreadable_fs gallery_dir [u ''b.md''])"
    "snd (scan_loop unreadable_fs gallery_dir [u ''a.md'', u ''b.md'']) =
       map_sum (\<lambda>x. x)
         (\<lambda>items.
            \<lparr>title = py_stem (u ''a.md''), description = fallback,
             image_path = u ''../img/'' @ gallery_dir @ u ''/'' @ py_stem (u ''a.md'') @ u ''.png'',
             code = []\<rparr> # items)
         (snd (scan_loop unreadable_fs gallery_dir [u ''b.md'']))"
    by blast+
  have "map_sum (\<lambda>x. x) (map title)
       (snd (scan_loop unreadable_fs gallery_dir [u ''a.md'', u ''b.md''])) =
      Inr [u ''a'', u ''b''] \<and>
     map_sum (\<lambda>x. x) (map description)
       (snd (scan_loop unreadable_fs gallery_dir [u ''a.md'', u ''b.md''])) =
      Inr [fallback, u ''Scatter plot''] \<and>
     fst (scan_loop unreadable_fs gallery_dir [u ''a.md'', u ''b.md'']) =
      [WarnUnreadable gallery_dir (u ''a.md'') PermissionError,
       WarnUnreadable gallery_dir (u ''a.md'') PermissionError]"
    unfolding l r by (simp add: st)
  moreover from t have
    "extract_description_from_md unreadable_fs gallery_dir (u ''a.md'') =
       ([WarnUnreadable gallery_dir (u ''a.md'') PermissionError], Inr fallback)"
    "extract_code_from_md unreadable_fs gallery_dir (u ''a.md'') =
       ([WarnUnreadable gallery_dir (u ''a.md'') PermissionError], Inr [])"
    by blast+
  ultimately show ?thesis using d by blast
qed

text \<open>
  Claim C8 (a file that cannot be read gives the two defaults, each after a warning, and
  neither extractor raises, so the run goes on). Both extractors catch every exception
  of the read, but the handler prints the path of the file, and that can raise in its
  turn. Beside the readable \<^verbatim>\<open>b.md\<close> the directory below holds a file that cannot be read
  and whose name starts with the code point U+DCFF. Reading it raises, printing the
  warning raises in the handler, and the exception leaves both extractors, the scan and
  \<open>generate_page\<close>: no warning is printed, no default is returned and no page is
  written, although \<^verbatim>\<open>b.md\<close> has its item.
\<close>

theorem surrogate_name_warning_raises:
  "read_text surrogate_fs gallery_dir (56575 # u ''.md'') = Inl PermissionError \<and>
   extract_description_from_md surrogate_fs gallery_dir (56575 # u ''.md'') =
     ([], Inl UnicodeEncodeError) \<and>
   extract_code_from_md surrogate_fs gallery_dir (56575 # u ''.md'') =
     ([], Inl UnicodeEncodeError) \<and>
   scan_directory surrogate_fs gallery_dir = ([], Inl UnicodeEncodeError) \<and>
   generate_page py_lower surrogate_fs gallery_dir (Some (u ''r-code.html'')) =
     ([], surrogate_fs, Inl UnicodeEncodeError)"
  by (simp add: generate_page_def surrogate_fs_def gallery_dir_def commented_file_def scan_defs
        eval_defs suffix_def)

section \<open>A category with nothing to show\<close>

text \<open>
  Claim C7. When the scan of a category gives no item, \<open>generate_page\<close> prints the
  warning after the lines of the scan, leaves the file system as it was and returns
  without raising. The scan gives no item for a category directory that does not
  exist (after its own warning) and for one that exists and is empty.
\<close>

theorem generate_page_nothing_to_show:
  "(snd (scan_directory fs dir_name) = Inr [] \<longrightarrow>
      generate_page str_lower fs dir_name output_filename =
        (fst (scan_directory fs dir_name) @ [WarnNoItems dir_name], fs, Inr ())) \<and>
   (listdir fs dir_name = None \<longrightarrow>
      scan_directory fs dir_name = ([WarnNoDirectory dir_name], Inr [])) \<and>
   (listdir fs dir_name = Some [] \<longrightarrow> scan_directory fs dir_name = ([], Inr []))"
  by (simp add: generate_page_def scan_directory_def split: prod.splits)

theorem generate_page_nothing_to_show_witness:
  "generate_page py_lower empty_dir_fs gallery_dir None =
     ([WarnNoItems gallery_dir], empty_dir_fs, Inr ()) \<and>
   generate_page py_lower empty_dir_fs (u ''Python code'') (Some (u ''python-code.html'')) =
     ([WarnNoDirectory (u ''Python code''), WarnNoItems (u ''Python code'')], empty_dir_fs, Inr ())"
proof -
  have a: "listdir empty_dir_fs gallery_dir = Some []" by (simp add: empty_dir_fs_def)
  have b: "listdir empty_dir_fs (u ''Python code'') = None"
    by (simp add: empty_dir_fs_def gallery_dir_def u_def)
  from generate_page_nothing_to_show[of empty_dir_fs gallery_dir py_lower None] a
  have 1: "generate_page py_lower empty_dir_fs gallery_dir None =
      ([WarnNoItems gallery_dir], empty_dir_fs, Inr ())" by simp
  from generate_page_nothing_to_show
    [of empty_dir_fs "u ''Python code''" py_lower "Some (u ''python-code.html'')"] b
  have 2: "generate_page py_lower empty_dir_fs (u ''Python code'') (Some (u ''python-code.html'')) =
     ([WarnNoDirectory (u ''Python code''), WarnNoItems (u ''Python code'')], empty_dir_fs, Inr ())"
    by simp
  from 1 2 show ?thesis by simp
qed

section \<open>The page\<close>



lemma gallery_loop_concat:
  "gallery_loop i items acc =
     acc @ concat (map (\<lambda>(k, it). gallery_item_html k it) (zip [i..<i + length items] items))"
proof (induction items arbitrary: i acc)
  case Nil
  then show ?case by simp
next
  case (Cons x xs)
  have "[i..<i + length (x # xs)] = i # [Suc i..<Suc i + length xs]"
    by (subst upt_rec) simp
  then show ?case by (simp add: Cons.IH)
qed

lemma modals_loop_concat:
  "modals_loop ln lc i items acc =
     acc @ concat (map (\<lambda>(k, it). modal_html ln lc k it) (zip [i..<i + length items] items))"
proof (induction items arbitrary: i acc)
  case Nil
  then show ?case by simp
next
  case (Cons x xs)
  have "[i..<i + length (x # xs)] = i # [Suc i..<Suc i + length xs]"
    by (subst upt_rec) simp
  then show ?case by (simp add: Cons.IH)
qed



subsection \<open>Counting the places where a text starts\<close>
























subsection \<open>The marks in the three templates\<close>










section \<open>The scan of a directory\<close>




lemma scan_loop_step:
  "scan_loop fs d (md # mds) =
     (if has_image fs d md then
        (case extract_description_from_md fs d md of
           (m1, Inl e) \<Rightarrow> (m1, Inl e)
         | (m1, Inr dsc) \<Rightarrow>
             (case extract_code_from_md fs d md of
                (m2, Inl e) \<Rightarrow> (m1 @ m2, Inl e)
              | (m2, Inr c) \<Rightarrow>
                  (case scan_loop fs d mds of
                     (ms, Inl e) \<Rightarrow> (m1 @ m2 @ ms, Inl e)
                   | (ms, Inr items) \<Rightarrow>
                       (m1 @ m2 @ ms,
                        Inr (\<lparr>title = py_stem md, description = dsc,
                              image_path = u ''../img/'' @ d @ u ''/'' @ py_stem md @ u ''.png'',
                              code = c\<rparr> # items)))))
      else scan_loop fs d mds)"
  by (simp add: has_image_def Let_def)

lemma scan_loop_titles:
  "snd (scan_loop fs d mds) = Inr items \<Longrightarrow>
   map title items = map py_stem (filter (has_image fs d) mds)"
proof (induction mds arbitrary: items)
  case Nil
  then show ?case by simp
next
  case (Cons md mds)
  show ?case
  proof (cases "has_image fs d md")
    case False
    with Cons show ?thesis by (simp add: scan_loop_step del: scan_loop.simps)
  next
    case True
    with Cons.prems obtain rest where
      "snd (scan_loop fs d mds) = Inr rest" "title (hd items) = py_stem md" "tl items = rest"
      "items \<noteq> []"
      by (auto simp: scan_loop_step simp del: scan_loop.simps split: prod.splits sum.splits)
    with Cons.IH[of rest] True show ?thesis by (cases items) auto
  qed
qed



lemma rfind_absent: "c \<notin> set ys \<Longrightarrow> rfind c ys = None"
  by (induction ys) auto

lemma rfind_last: "c \<notin> set ys \<Longrightarrow> rfind c (xs @ c # ys) = Some (length xs)"
  by (induction xs) (auto simp: rfind_absent)

lemma py_stem_md: "b \<noteq> [] \<Longrightarrow> py_stem (b @ u ''.md'') = b"
proof -
  assume b: "b \<noteq> []"
  have "rfind 46 (b @ 46 # [109, 100]) = Some (length b)"
    by (rule rfind_last) simp
  moreover have "u ''.md'' = 46 # [109, 100]" by (simp add: u_def)
  ultimately show ?thesis using b by (simp add: py_stem_def)
qed

lemma glob_md_iff: "glob_md name \<longleftrightarrow> (\<exists>b. name = b @ u ''.md'')"
  by (auto simp: glob_md_def suffix_def)

lemma scan_directory_titles:
  assumes "listdir fs d = Some es" "snd (scan_directory fs d) = Inr items"
  shows "map title items = map py_stem (filter (has_image fs d) (sort (filter glob_md es)))"
  using assms by (simp add: scan_directory_def scan_loop_titles)







lemma extract_description_cong:
  "read_text fs' = read_text fs \<Longrightarrow>
   extract_description_from_md fs' d md = extract_description_from_md fs d md"
  by (simp add: extract_description_from_md_def)

lemma extract_code_cong:
  "read_text fs' = read_text fs \<Longrightarrow> extract_code_from_md fs' d md = extract_code_from_md fs d md"
  by (simp add: extract_code_from_md_def)

lemma scan_loop_cong:
  assumes "path_exists fs' = path_exists fs" "read_text fs' = read_text fs"
  shows "scan_loop fs' d mds = scan_loop fs d mds"
proof (induction mds)
  case Nil
  then show ?case by simp
next
  case (Cons md mds)
  have a: "extract_description_from_md fs' d md = extract_description_from_md fs d md"
    using assms(2) by (rule extract_description_cong)
  have b: "extract_code_from_md fs' d md = extract_code_from_md fs d md"
    using assms(2) by (rule extract_code_cong)
  show ?case by (simp add: a b Cons.IH assms(1) Let_def)
qed

lemma sort_filter_same_names:
  assumes "mset es' = mset es"
  shows "sort (filter P es') = sort (filter P es)"
proof (rule properties_for_sort)
  have "mset (filter P es) = filter_mset P (mset es)" by simp
  also have "\<dots> = filter_mset P (mset es')" using assms by simp
  finally show "mset (sort (filter P es)) = mset (filter P es')" by simp
  show "sorted (sort (filter P es))" by simp
qed

lemma scan_directory_order_independent:
  assumes "listdir fs d = Some es" "listdir fs' d = Some es'" "mset es' = mset es"
    "read_text fs' = read_text fs" "path_exists fs' = path_exists fs"
  shows "scan_directory fs' d = scan_directory fs d"
proof -
  have "scan_directory fs' d = scan_loop fs' d (sort (filter glob_md es'))"
    using assms(2) by (simp add: scan_directory_def)
  also have "\<dots> = scan_loop fs d (sort (filter glob_md es'))"
    using assms(5) assms(4) by (rule scan_loop_cong)
  also have "sort (filter glob_md es') = sort (filter glob_md es)"
    using assms(3) by (rule sort_filter_same_names)
  also have "scan_loop fs d (sort (filter glob_md es)) = scan_directory fs d"
    using assms(1) by (simp add: scan_directory_def)
  finally show ?thesis .
qed

lemma scan_directory_sorted:
  assumes es: "listdir fs d = Some es" and nodot: "u ''.md'' \<notin> set es"
    and r: "snd (scan_directory fs d) = Inr items"
  shows "sorted (map (\<lambda>it. title it @ u ''.md'') items)"
proof -
  let ?l = "filter (has_image fs d) (sort (filter glob_md es))"
  have "map (\<lambda>it. title it @ u ''.md'') items = map (\<lambda>t. t @ u ''.md'') (map title items)"
    by simp
  also have "\<dots> = map (\<lambda>md. py_stem md @ u ''.md'') ?l"
    unfolding scan_directory_titles[OF es r] by simp
  also have "\<dots> = map (\<lambda>md. md) ?l"
  proof (rule map_cong[OF refl])
    fix md assume "md \<in> set ?l"
    then have md: "md \<in> set es" "glob_md md" by auto
    then obtain b where b: "md = b @ u ''.md''" by (auto simp: glob_md_iff)
    with md(1) nodot have "b \<noteq> []" by auto
    then show "py_stem md @ u ''.md'' = md" unfolding b by (simp add: py_stem_md)
  qed
  finally have "map (\<lambda>it. title it @ u ''.md'') items = ?l" by simp
  moreover have "sorted ?l"
    using sorted_filter[of "\<lambda>x. x" "sort (filter glob_md es)" "has_image fs d"] by simp
  ultimately show ?thesis by simp
qed

lemma generate_html_content_order:
  "generate_html_content dir_name items =
     page_html (fst (detect_language dir_name) @ u '' Code Gallery'')
       (concat (map (\<lambda>(k, it). gallery_item_html k it) (zip [1..<1 + length items] items)))
       (concat (map (\<lambda>(k, it).
            modal_html (fst (detect_language dir_name)) (snd (detect_language dir_name)) k it)
          (zip [1..<1 + length items] items)))
       (u ''https://cdnjs.cloudflare.com/ajax/libs/prism/1.29.0/components/prism-'' @
        snd (detect_language dir_name) @ u ''.min.js'')"
  unfolding generate_html_content_def Let_def gallery_loop_concat modals_loop_concat
  by (simp add: case_prod_beta)

text \<open>
  Claim C5, as the code has it. The items that the scan returns are in the
  lexicographic order (by code point) of the names of their documentation files, that
  is of the base name followed by \<^verbatim>\<open>.md\<close> (for a directory without a file named exactly
  \<^verbatim>\<open>.md\<close>); the result of the scan does not depend on the order in which the file system
  enumerates the directory; and \<open>generate_html_content\<close> puts the cards and the detail
  views into the page in the order of the list, numbered from 1.
\<close>

theorem items_in_file_name_order:
  "(listdir fs dir_name = Some es \<and> u ''.md'' \<notin> set es \<and>
    snd (scan_directory fs dir_name) = Inr scanned \<longrightarrow>
      sorted (map (\<lambda>it. title it @ u ''.md'') scanned)) \<and>
   (listdir fs dir_name = Some es \<and> listdir fs' dir_name = Some es' \<and> mset es' = mset es \<and>
    read_text fs' = read_text fs \<and> path_exists fs' = path_exists fs \<longrightarrow>
      scan_directory fs' dir_name = scan_directory fs dir_name) \<and>
   generate_html_content dir_name items =
     page_html (fst (detect_language dir_name) @ u '' Code Gallery'')
       (concat (map (\<lambda>(k, it). gallery_item_html k it) (zip [1..<1 + length items] items)))
       (concat (map (\<lambda>(k, it).
            modal_html (fst (detect_language dir_name)) (snd (detect_language dir_name)) k it)
          (zip [1..<1 + length items] items)))
       (u ''https://cdnjs.cloudflare.com/ajax/libs/prism/1.29.0/components/prism-'' @
        snd (detect_language dir_name) @ u ''.min.js'')"
proof (intro conjI impI)
  assume "listdir fs dir_name = Some es \<and> u ''.md'' \<notin> set es \<and>
    snd (scan_directory fs dir_name) = Inr scanned"
  then show "sorted (map (\<lambda>it. title it @ u ''.md'') scanned)"
    using scan_directory_sorted by blast
next
  assume "listdir fs dir_name = Some es \<and> listdir fs' dir_name = Some es' \<and>
    mset es' = mset es \<and> read_text fs' = read_text fs \<and> path_exists fs' = path_exists fs"
  then show "scan_directory fs' dir_name = scan_directory fs dir_name"
    using scan_directory_order_independent by blast
qed (rule generate_html_content_order)

theorem items_in_file_name_order_witness:
  "(\<exists>scanned. snd (scan_directory prefix_fs gallery_dir) = Inr scanned \<and>
      map title scanned = [u ''a-b'', u ''a''] \<and>
      sorted (map (\<lambda>it. title it @ u ''.md'') scanned)) \<and>
   scan_directory reversed_fs gallery_dir = scan_directory prefix_fs gallery_dir"
proof -
  let ?es = "[u ''a.md'', u ''a.png'', u ''a-b.md'', u ''a-b.png'']"
  have h1: "listdir prefix_fs gallery_dir = Some ?es" by (simp add: prefix_fs_def)
  have h2: "u ''.md'' \<notin> set ?es" by (simp add: u_def)
  have h3: "listdir reversed_fs gallery_dir = Some (rev ?es)"
    by (simp add: reversed_fs_def prefix_fs_def)
  have h4: "mset (rev ?es) = mset ?es" by (rule mset_rev)
  have h5: "read_text reversed_fs = read_text prefix_fs" by (simp add: reversed_fs_def)
  have h6: "path_exists reversed_fs = path_exists prefix_fs" by (simp add: reversed_fs_def)
  obtain scanned where r: "snd (scan_directory prefix_fs gallery_dir) = Inr scanned"
    and t: "map title scanned = [u ''a-b'', u ''a'']"
    by (simp add: prefix_fs_def gallery_dir_def commented_file_def scan_defs eval_defs suffix_def
          split: prod.splits)
  note inst = items_in_file_name_order[of prefix_fs gallery_dir ?es scanned reversed_fs "rev ?es" "[]"]
  from inst h1 h2 r have 1: "sorted (map (\<lambda>it. title it @ u ''.md'') scanned)" by blast
  from inst h1 h3 h4 h5 h6
  have 2: "scan_directory reversed_fs gallery_dir = scan_directory prefix_fs gallery_dir"
    by blast
  show ?thesis by (intro conjI exI[of _ scanned]) (rule r t 1 2)+
qed

text \<open>
  Claim C5 as stated fails when a base name is the beginning of another one and goes
  on with a character below the full stop: \<^verbatim>\<open>a-b.md\<close> comes before \<^verbatim>\<open>a.md\<close>, so the
  items are \<^verbatim>\<open>a-b\<close>, \<^verbatim>\<open>a\<close>, which is not the order of the base names.
\<close>

theorem prefix_name_sorts_after:
  "map_sum (\<lambda>x. x) (map title) (snd (scan_directory prefix_fs gallery_dir)) =
     Inr [u ''a-b'', u ''a''] \<and>
   \<not> sorted [u ''a-b'', u ''a''] \<and>
   u ''a'' < u ''a-b''"
  by (simp add: prefix_fs_def gallery_dir_def commented_file_def scan_defs eval_defs suffix_def
        split: prod.splits)
end
